theory Spec2Isabelle
  imports Main "HOL-Library.Word"
begin

section \<open>LoopExecutor: one-click leveraged staking\<close>

text \<open>
  A shallow embedding of the contract \<^verbatim>\<open>LoopExecutor\<close> (class \<^verbatim>\<open>LoopExecutor extends OP_NET\<close>,
  AssemblyScript). The contract keeps nine storage slots, talks to two other contracts (the
  OP20 token MOTO and the lending pool Stash) through \<^verbatim>\<open>Blockchain.call\<close>, and aborts with
  \<^verbatim>\<open>throw new Revert(msg)\<close>.

  \<^item> \<^verbatim>\<open>u256\<close> is a 256-bit word; \<^verbatim>\<open>Address\<close> is 32 bytes, also a 256-bit word, and
    \<^verbatim>\<open>Address.zero()\<close> is \<open>0\<close>.
  \<^item> A method is a function from the machine (storage, outside world, log of external calls,
    emitted events) to a result and the machine it leaves: \<open>Inl\<close> the error of a revert,
    \<open>Inr\<close> the returned value. After a revert the machine is the one at the point of failure;
    the runtime's rollback is \<open>transact\<close> below.
  \<^item> The two \<^verbatim>\<open>for\<close> loops count to \<^verbatim>\<open>MAX_LOOPS\<close>; they are recursive functions on the number
    of iterations left.
\<close>

subsection \<open>Values, errors, SafeMath\<close>

type_synonym u256 = "256 word"
type_synonym address = "256 word"

datatype error =
    Revert string
  | ArithmeticOverflow
  | ArithmeticUnderflow
  | DivisionByZero
  | CallFailed
  | MalformedResponse

text \<open>
  Modelled from the spec: \<^verbatim>\<open>SafeMath\<close> is imported from the runtime library and is not part of
  the repository. The spec's contract for it: all values are unsigned integers representable in
  256 bits; addition, subtraction, multiplication and division fail with ArithmeticOverflow,
  ArithmeticUnderflow and DivisionByZero on violation and never wrap silently.
\<close>

definition safe_add :: "u256 \<Rightarrow> u256 \<Rightarrow> error + u256" where
  "safe_add a b = (if unat a + unat b < 2 ^ 256 then Inr (a + b) else Inl ArithmeticOverflow)"

definition safe_sub :: "u256 \<Rightarrow> u256 \<Rightarrow> error + u256" where
  "safe_sub a b = (if b \<le> a then Inr (a - b) else Inl ArithmeticUnderflow)"

definition safe_mul :: "u256 \<Rightarrow> u256 \<Rightarrow> error + u256" where
  "safe_mul a b = (if unat a * unat b < 2 ^ 256 then Inr (a * b) else Inl ArithmeticOverflow)"

definition safe_div :: "u256 \<Rightarrow> u256 \<Rightarrow> error + u256" where
  "safe_div a b = (if b = 0 then Inl DivisionByZero else Inr (a div b))"

definition orElse :: "error + 'a \<Rightarrow> ('a \<Rightarrow> error + 'b) \<Rightarrow> error + 'b" where
  "orElse r f = (case r of Inl e \<Rightarrow> Inl e | Inr a \<Rightarrow> f a)"

subsection \<open>Constants\<close>

definition FEE_BASIS :: u256 where "FEE_BASIS = 10000"
definition ENTRY_FEE_BPS :: u256 where "ENTRY_FEE_BPS = 50"
definition EXIT_FEE_BPS :: u256 where "EXIT_FEE_BPS = 50"
definition MIN_DEPOSIT :: u256 where "MIN_DEPOSIT = 10000"
definition MAX_LEVERAGE_E18 :: u256 where "MAX_LEVERAGE_E18 = 3000000000000000000"
definition MIN_HEALTH_FACTOR_E18 :: u256 where "MIN_HEALTH_FACTOR_E18 = 1500000000000000000"
definition E18 :: u256 where "E18 = 1000000000000000000"
definition MAX_LOOPS :: nat where "MAX_LOOPS = 5"
definition u256_Max :: u256 where "u256_Max = - 1"

text \<open>
  \<^verbatim>\<open>feeRoundUp(amount, bps)\<close>: \<^verbatim>\<open>numerator = SafeMath.mul(amount, bps)\<close>, then
  \<^verbatim>\<open>SafeMath.div(SafeMath.add(numerator, SafeMath.sub(FEE_BASIS, u256.One)), FEE_BASIS)\<close>.
\<close>

definition feeRoundUp :: "u256 \<Rightarrow> u256 \<Rightarrow> error + u256" where
  "feeRoundUp amount bps =
     orElse (safe_mul amount bps) (\<lambda>numerator.
     orElse (safe_sub FEE_BASIS 1) (\<lambda>basisLessOne.
     orElse (safe_add numerator basisLessOne) (\<lambda>s.
     safe_div s FEE_BASIS)))"

subsection \<open>Storage, external calls, the machine\<close>

record storage =
  treasury :: address
  stash :: address
  moto :: address
  paused :: bool
  locked :: bool
  totalFeesCollected :: u256
  activeUser :: address
  userDeposits :: "address \<Rightarrow> u256"
  userDebts :: "address \<Rightarrow> u256"

text \<open>
  One constructor per selector the contract calls. The first argument is the contract called
  (\<^verbatim>\<open>Blockchain.call(target, calldata, true)\<close>), the others are the calldata in the order written.
\<close>

datatype call =
    OP20_transferFrom address address address u256
  | OP20_transfer address address u256
  | OP20_increaseAllowance address address u256
  | OP20_decreaseAllowance address address u256
  | Stash_deposit address address u256
  | Stash_borrow address address u256
  | Stash_repay address address u256
  | Stash_withdraw address address u256
  | Stash_healthFactor address address
  | Stash_borrowBalanceOf address address
  | Stash_maxBorrowable address address
  | Stash_depositBalanceOf address address

text \<open>
  The data a call returns, as the caller decodes it: nothing (\<^verbatim>\<open>byteLength = 0\<close>), a boolean
  (\<^verbatim>\<open>readBoolean\<close>) or a u256 (\<^verbatim>\<open>readU256\<close>).
\<close>

datatype response = NoData | BoolData bool | U256Data u256

text \<open>
  The outside world (token and pool, of any behaviour) is a state \<open>'w\<close> and a function that
  answers a call in a state: \<open>None\<close> when the called contract fails (with
  \<^verbatim>\<open>stopOnFailure = true\<close> the caller then fails too), else the data returned and the next state.
  Nothing is assumed of this function.
\<close>

type_synonym 'w extern = "call \<Rightarrow> 'w \<Rightarrow> (response \<times> 'w) option"

datatype net_event =
    PositionOpened address u256 u256 u256 u256
  | PositionClosed address u256 u256 u256 u256

text \<open>
  \<open>calls\<close> logs every \<^verbatim>\<open>Blockchain.call\<close> in order, with the data it returned (\<open>None\<close> for a call
  that failed). It is a ghost field: no method reads it.
\<close>

record 'w machine =
  store :: storage
  world :: 'w
  calls :: "(call \<times> response option) list"
  emitted :: "net_event list"

type_synonym ('w, 'a) operation = "'w machine \<Rightarrow> (error + 'a) \<times> 'w machine"

definition ret :: "'a \<Rightarrow> ('w, 'a) operation" where
  "ret a m = (Inr a, m)"

definition revert :: "string \<Rightarrow> ('w, 'a) operation" where
  "revert msg m = (Inl (Revert msg), m)"

definition math :: "error + 'a \<Rightarrow> ('w, 'a) operation" where
  "math r m = (r, m)"

definition andThen :: "('w, 'a) operation \<Rightarrow> ('a \<Rightarrow> ('w, 'b) operation) \<Rightarrow> ('w, 'b) operation" where
  "andThen f g m = (case f m of (Inl e, m') \<Rightarrow> (Inl e, m') | (Inr a, m') \<Rightarrow> g a m')"

definition reads :: "(storage \<Rightarrow> 'a) \<Rightarrow> ('w, 'a) operation" where
  "reads field m = (Inr (field (store m)), m)"

definition writes :: "(storage \<Rightarrow> storage) \<Rightarrow> ('w, unit) operation" where
  "writes upd m = (Inr (), m\<lparr>store := upd (store m)\<rparr>)"

definition emitEvent :: "net_event \<Rightarrow> ('w, unit) operation" where
  "emitEvent ev m = (Inr (), m\<lparr>emitted := emitted m @ [ev]\<rparr>)"

definition blockchainCall :: "'w extern \<Rightarrow> call \<Rightarrow> ('w, response) operation" where
  "blockchainCall ext c m =
     (case ext c (world m) of
        None \<Rightarrow> (Inl CallFailed, m\<lparr>calls := calls m @ [(c, None)]\<rparr>)
      | Some (r, w') \<Rightarrow> (Inr r, m\<lparr>world := w', calls := calls m @ [(c, Some r)]\<rparr>))"

text \<open>
  The runtime rolls back every storage mutation of a transaction that reverts (the contract's
  header relies on it for the reentrancy lock). The log of calls is kept for inspection.
\<close>

definition transact :: "('w, 'a) operation \<Rightarrow> ('w, 'a) operation" where
  "transact f m =
     (case f m of
        (Inl e, m') \<Rightarrow> (Inl e, m\<lparr>calls := calls m'\<rparr>)
      | (Inr a, m') \<Rightarrow> (Inr a, m'))"

subsection \<open>Internal helpers\<close>

definition nonReentrant :: "('w, unit) operation" where
  "nonReentrant =
     andThen (reads locked) (\<lambda>l.
       if l then revert ''Reentrant call''
       else writes (\<lambda>s. s\<lparr>locked := True\<rparr>))"

definition releaseGuard :: "('w, unit) operation" where
  "releaseGuard = writes (\<lambda>s. s\<lparr>locked := False\<rparr>)"

definition whenNotPaused :: "('w, unit) operation" where
  "whenNotPaused =
     andThen (reads paused) (\<lambda>p.
       if p then revert ''Contract is paused'' else ret ())"

text \<open>\<^verbatim>\<open>r.data.byteLength > 0 && !r.data.readBoolean()\<close>\<close>

definition reportsFailure :: "response \<Rightarrow> bool" where
  "reportsFailure r = (case r of BoolData b \<Rightarrow> \<not> b | _ \<Rightarrow> False)"

text \<open>\<^verbatim>\<open>r.data.readU256()\<close>; reading a u256 out of a response that holds none aborts.\<close>

definition readU256 :: "response \<Rightarrow> ('w, u256) operation" where
  "readU256 r = (case r of U256Data v \<Rightarrow> ret v | _ \<Rightarrow> math (Inl MalformedResponse))"

definition safeTransferFrom ::
  "'w extern \<Rightarrow> address \<Rightarrow> address \<Rightarrow> address \<Rightarrow> u256 \<Rightarrow> ('w, unit) operation" where
  "safeTransferFrom ext token from to amount =
     andThen (blockchainCall ext (OP20_transferFrom token from to amount)) (\<lambda>r.
       if reportsFailure r then revert ''transferFrom failed'' else ret ())"

definition safeTransfer :: "'w extern \<Rightarrow> address \<Rightarrow> address \<Rightarrow> u256 \<Rightarrow> ('w, unit) operation" where
  "safeTransfer ext token to amount =
     andThen (blockchainCall ext (OP20_transfer token to amount)) (\<lambda>r.
       if reportsFailure r then revert ''transfer failed'' else ret ())"

definition safeIncreaseAllowance ::
  "'w extern \<Rightarrow> address \<Rightarrow> address \<Rightarrow> u256 \<Rightarrow> ('w, unit) operation" where
  "safeIncreaseAllowance ext token spender amount =
     andThen (blockchainCall ext (OP20_increaseAllowance token spender amount)) (\<lambda>r.
       if reportsFailure r then revert ''increaseAllowance failed'' else ret ())"

definition safeDecreaseAllowance ::
  "'w extern \<Rightarrow> address \<Rightarrow> address \<Rightarrow> u256 \<Rightarrow> ('w, unit) operation" where
  "safeDecreaseAllowance ext token spender amount =
     andThen (blockchainCall ext (OP20_decreaseAllowance token spender amount)) (\<lambda>r.
       if reportsFailure r then revert ''decreaseAllowance failed'' else ret ())"

definition stashDeposit :: "'w extern \<Rightarrow> u256 \<Rightarrow> ('w, unit) operation" where
  "stashDeposit ext amount =
     andThen (reads moto) (\<lambda>token.
     andThen (reads stash) (\<lambda>pool.
     andThen (blockchainCall ext (Stash_deposit pool token amount)) (\<lambda>_. ret ())))"

definition stashBorrow :: "'w extern \<Rightarrow> u256 \<Rightarrow> ('w, unit) operation" where
  "stashBorrow ext amount =
     andThen (reads moto) (\<lambda>token.
     andThen (reads stash) (\<lambda>pool.
     andThen (blockchainCall ext (Stash_borrow pool token amount)) (\<lambda>_. ret ())))"

definition stashRepay :: "'w extern \<Rightarrow> u256 \<Rightarrow> ('w, unit) operation" where
  "stashRepay ext amount =
     andThen (reads moto) (\<lambda>token.
     andThen (reads stash) (\<lambda>pool.
     andThen (blockchainCall ext (Stash_repay pool token amount)) (\<lambda>_. ret ())))"

definition stashWithdraw :: "'w extern \<Rightarrow> u256 \<Rightarrow> ('w, unit) operation" where
  "stashWithdraw ext amount =
     andThen (reads moto) (\<lambda>token.
     andThen (reads stash) (\<lambda>pool.
     andThen (blockchainCall ext (Stash_withdraw pool token amount)) (\<lambda>_. ret ())))"

definition stashHealthFactor :: "'w extern \<Rightarrow> address \<Rightarrow> ('w, u256) operation" where
  "stashHealthFactor ext self =
     andThen (reads stash) (\<lambda>pool.
     andThen (blockchainCall ext (Stash_healthFactor pool self)) readU256)"

definition stashBorrowBalance :: "'w extern \<Rightarrow> address \<Rightarrow> ('w, u256) operation" where
  "stashBorrowBalance ext self =
     andThen (reads stash) (\<lambda>pool.
     andThen (blockchainCall ext (Stash_borrowBalanceOf pool self)) readU256)"

definition stashMaxBorrowable :: "'w extern \<Rightarrow> address \<Rightarrow> ('w, u256) operation" where
  "stashMaxBorrowable ext self =
     andThen (reads stash) (\<lambda>pool.
     andThen (blockchainCall ext (Stash_maxBorrowable pool self)) readU256)"

definition stashDepositBalance :: "'w extern \<Rightarrow> address \<Rightarrow> ('w, u256) operation" where
  "stashDepositBalance ext self =
     andThen (reads stash) (\<lambda>pool.
     andThen (blockchainCall ext (Stash_depositBalanceOf pool self)) readU256)"

definition enforceHealthFactor :: "'w extern \<Rightarrow> address \<Rightarrow> ('w, unit) operation" where
  "enforceHealthFactor ext self =
     andThen (stashHealthFactor ext self) (\<lambda>hf.
       if hf < MIN_HEALTH_FACTOR_E18 then revert ''Health factor below minimum 1.5''
       else ret ())"

text \<open>
  The block both methods run for a fee that is not zero: transfer it to the treasury, then add
  it to \<^verbatim>\<open>totalFeesCollected\<close>.
\<close>

definition collectFee :: "'w extern \<Rightarrow> u256 \<Rightarrow> ('w, unit) operation" where
  "collectFee ext fee =
     andThen (reads moto) (\<lambda>token.
     andThen (reads treasury) (\<lambda>recipient.
     andThen (safeTransfer ext token recipient fee) (\<lambda>_.
     andThen (reads totalFeesCollected) (\<lambda>collected.
     andThen (math (safe_add collected fee)) (\<lambda>total.
     writes (\<lambda>s. s\<lparr>totalFeesCollected := total\<rparr>))))))"

subsection \<open>openPosition\<close>

text \<open>
  The leverage loop \<^verbatim>\<open>for (let i: u32 = 0; i < MAX_LOOPS; i++)\<close>. The first numeral argument is
  the number of iterations left; the loop variables are \<open>totalDeposited\<close>, \<open>totalBorrowed\<close>
  and \<open>currentAmount\<close>; every \<^verbatim>\<open>break\<close> returns the two totals.
\<close>

fun openLoop ::
  "'w extern \<Rightarrow> address \<Rightarrow> u256 \<Rightarrow> nat \<Rightarrow> u256 \<Rightarrow> u256 \<Rightarrow> u256 \<Rightarrow> ('w, u256 \<times> u256) operation" where
  "openLoop ext self targetTotalDeposit 0 totalDeposited totalBorrowed currentAmount =
     ret (totalDeposited, totalBorrowed)"
| "openLoop ext self targetTotalDeposit (Suc n) totalDeposited totalBorrowed currentAmount =
     (if currentAmount = 0 then ret (totalDeposited, totalBorrowed)
      else
        andThen (stashDeposit ext currentAmount) (\<lambda>_.
        andThen (math (safe_add totalDeposited currentAmount)) (\<lambda>totalDeposited.
          if targetTotalDeposit \<le> totalDeposited then ret (totalDeposited, totalBorrowed)
          else
            andThen (stashMaxBorrowable ext self) (\<lambda>maxBorrowable.
              if maxBorrowable = 0 then ret (totalDeposited, totalBorrowed)
              else
                andThen (math (safe_sub targetTotalDeposit totalDeposited)) (\<lambda>remaining.
                  let borrowAmount = (if maxBorrowable < remaining then maxBorrowable else remaining)
                  in
                    if borrowAmount = 0 then ret (totalDeposited, totalBorrowed)
                    else
                      andThen (stashBorrow ext borrowAmount) (\<lambda>_.
                      andThen (math (safe_add totalBorrowed borrowAmount)) (\<lambda>totalBorrowed.
                      andThen (enforceHealthFactor ext self) (\<lambda>_.
                        openLoop ext self targetTotalDeposit n
                          totalDeposited totalBorrowed borrowAmount))))))))"

text \<open>
  \<^verbatim>\<open>openPosition(amount, targetLeverageE18)\<close> called by \<open>sender\<close> (\<^verbatim>\<open>Blockchain.tx.sender\<close>) on
  the contract at \<open>self\<close> (\<^verbatim>\<open>Blockchain.contract.address\<close>). It returns the boolean it writes
  to its response.
\<close>

definition openPosition ::
  "'w extern \<Rightarrow> address \<Rightarrow> address \<Rightarrow> u256 \<Rightarrow> u256 \<Rightarrow> ('w, bool) operation" where
  "openPosition ext sender self amount targetLeverageE18 =
     andThen whenNotPaused (\<lambda>_.
     andThen nonReentrant (\<lambda>_.
       if amount < MIN_DEPOSIT then revert ''Amount below minimum deposit''
       else if MAX_LEVERAGE_E18 < targetLeverageE18 then revert ''Leverage exceeds 3x cap''
       else if targetLeverageE18 < E18 then revert ''Leverage must be >= 1x''
       else
         andThen (reads activeUser) (\<lambda>active.
           if active \<noteq> 0 then revert ''Another position is already active''
           else
             andThen (reads moto) (\<lambda>token.
             andThen (safeTransferFrom ext token sender self amount) (\<lambda>_.
             andThen (math (feeRoundUp amount ENTRY_FEE_BPS)) (\<lambda>entryFee.
             andThen (math (safe_sub amount entryFee)) (\<lambda>netDeposit.
             andThen (if 0 < entryFee then collectFee ext entryFee else ret ()) (\<lambda>_.
             andThen (reads moto) (\<lambda>token.
             andThen (reads stash) (\<lambda>pool.
             andThen (safeIncreaseAllowance ext token pool u256_Max) (\<lambda>_.
             andThen (math (orElse (safe_mul netDeposit targetLeverageE18)
                                   (\<lambda>product. safe_div product E18))) (\<lambda>targetTotalDeposit.
             andThen (openLoop ext self targetTotalDeposit MAX_LOOPS 0 0 netDeposit)
               (\<lambda>(totalDeposited, totalBorrowed).
             andThen (enforceHealthFactor ext self) (\<lambda>_.
             andThen (writes (\<lambda>s. s\<lparr>activeUser := sender\<rparr>)) (\<lambda>_.
             andThen (writes (\<lambda>s. s\<lparr>userDeposits := (userDeposits s)(sender := totalDeposited)\<rparr>)) (\<lambda>_.
             andThen (writes (\<lambda>s. s\<lparr>userDebts := (userDebts s)(sender := totalBorrowed)\<rparr>)) (\<lambda>_.
             andThen (emitEvent
                        (PositionOpened sender amount totalDeposited totalBorrowed entryFee)) (\<lambda>_.
             andThen releaseGuard (\<lambda>_.
               ret True)))))))))))))))))))"

text \<open>
  The statements of \<^verbatim>\<open>openPosition\<close> after its checks, from pulling the tokens to the end. It
  is \<open>openPosition\<close>'s own text, named so that proofs can treat the checks and what follows
  them one at a time (\<open>openPosition_phases\<close> below).
\<close>

definition openFunded ::
  "'w extern \<Rightarrow> address \<Rightarrow> address \<Rightarrow> u256 \<Rightarrow> u256 \<Rightarrow> ('w, bool) operation" where
  "openFunded ext sender self amount targetLeverageE18 =
             andThen (reads moto) (\<lambda>token.
             andThen (safeTransferFrom ext token sender self amount) (\<lambda>_.
             andThen (math (feeRoundUp amount ENTRY_FEE_BPS)) (\<lambda>entryFee.
             andThen (math (safe_sub amount entryFee)) (\<lambda>netDeposit.
             andThen (if 0 < entryFee then collectFee ext entryFee else ret ()) (\<lambda>_.
             andThen (reads moto) (\<lambda>token.
             andThen (reads stash) (\<lambda>pool.
             andThen (safeIncreaseAllowance ext token pool u256_Max) (\<lambda>_.
             andThen (math (orElse (safe_mul netDeposit targetLeverageE18)
                                   (\<lambda>product. safe_div product E18))) (\<lambda>targetTotalDeposit.
             andThen (openLoop ext self targetTotalDeposit MAX_LOOPS 0 0 netDeposit)
               (\<lambda>(totalDeposited, totalBorrowed).
             andThen (enforceHealthFactor ext self) (\<lambda>_.
             andThen (writes (\<lambda>s. s\<lparr>activeUser := sender\<rparr>)) (\<lambda>_.
             andThen (writes (\<lambda>s. s\<lparr>userDeposits := (userDeposits s)(sender := totalDeposited)\<rparr>)) (\<lambda>_.
             andThen (writes (\<lambda>s. s\<lparr>userDebts := (userDebts s)(sender := totalBorrowed)\<rparr>)) (\<lambda>_.
             andThen (emitEvent
                        (PositionOpened sender amount totalDeposited totalBorrowed entryFee)) (\<lambda>_.
             andThen releaseGuard (\<lambda>_.
               ret True))))))))))))))))"

subsection \<open>closePosition\<close>

text \<open>
  The amount one iteration of the unwind loop withdraws, from \<open>remainingCollateral\<close> and
  \<open>remainingDebt\<close>: the statements between the two \<^verbatim>\<open>break\<close>s and \<^verbatim>\<open>stashWithdraw\<close>.
\<close>

definition withdrawAmount :: "u256 \<Rightarrow> u256 \<Rightarrow> error + u256" where
  "withdrawAmount remainingCollateral remainingDebt =
     orElse (safe_div remainingCollateral 2) (\<lambda>half.
     orElse (if remainingDebt < remainingCollateral
             then orElse (safe_sub remainingCollateral remainingDebt) (\<lambda>excess.
                    Inr (if half < excess then excess else half))
             else Inr half) (\<lambda>w.
       let w = (if w = 0 then 1 else w);
           w = (if remainingCollateral < w then remainingCollateral else w)
       in Inr w))"

text \<open>
  The unwind loop; it returns \<open>remainingDebt\<close> and \<open>remainingCollateral\<close> as they are when it
  exits.
\<close>

fun closeLoop :: "'w extern \<Rightarrow> nat \<Rightarrow> u256 \<Rightarrow> u256 \<Rightarrow> ('w, u256 \<times> u256) operation" where
  "closeLoop ext 0 remainingDebt remainingCollateral = ret (remainingDebt, remainingCollateral)"
| "closeLoop ext (Suc n) remainingDebt remainingCollateral =
     (if remainingDebt = 0 then ret (remainingDebt, remainingCollateral)
      else if remainingCollateral = 0 then ret (remainingDebt, remainingCollateral)
      else
        andThen (math (withdrawAmount remainingCollateral remainingDebt)) (\<lambda>withdrawn.
        andThen (stashWithdraw ext withdrawn) (\<lambda>_.
          let repayAmount = (if withdrawn < remainingDebt then withdrawn else remainingDebt)
          in
            andThen (if 0 < repayAmount
                     then andThen (stashRepay ext repayAmount) (\<lambda>_.
                            math (safe_sub remainingDebt repayAmount))
                     else ret remainingDebt) (\<lambda>remainingDebt.
            andThen (math (safe_sub remainingCollateral withdrawn)) (\<lambda>remainingCollateral.
              closeLoop ext n remainingDebt remainingCollateral)))))"

text \<open>
  The exit-fee block: it returns \<open>(exitFee, userReceives)\<close>, which start as \<open>(0, netProceeds)\<close>
  and change only when \<open>netProceeds\<close> is not zero.
\<close>

definition settleProceeds :: "'w extern \<Rightarrow> address \<Rightarrow> u256 \<Rightarrow> ('w, u256 \<times> u256) operation" where
  "settleProceeds ext sender netProceeds =
     (if 0 < netProceeds
      then
        andThen (math (feeRoundUp netProceeds EXIT_FEE_BPS)) (\<lambda>exitFee.
        andThen (math (safe_sub netProceeds exitFee)) (\<lambda>userReceives.
        andThen (if 0 < exitFee then collectFee ext exitFee else ret ()) (\<lambda>_.
        andThen (if 0 < userReceives
                 then andThen (reads moto) (\<lambda>token. safeTransfer ext token sender userReceives)
                 else ret ()) (\<lambda>_.
          ret (exitFee, userReceives)))))
      else ret (0, netProceeds))"

definition closePosition :: "'w extern \<Rightarrow> address \<Rightarrow> address \<Rightarrow> ('w, bool) operation" where
  "closePosition ext sender self =
     andThen nonReentrant (\<lambda>_.
     andThen (reads (\<lambda>s. userDeposits s sender)) (\<lambda>storedDeposit.
       if storedDeposit = 0 then revert ''No open position''
       else
         andThen (reads activeUser) (\<lambda>active.
           if active \<noteq> sender then revert ''Not position owner''
           else
             andThen (stashBorrowBalance ext self) (\<lambda>remainingDebt.
             andThen (stashDepositBalance ext self) (\<lambda>remainingCollateral.
             andThen (reads moto) (\<lambda>token.
             andThen (reads stash) (\<lambda>pool.
             andThen (safeIncreaseAllowance ext token pool u256_Max) (\<lambda>_.
             andThen (closeLoop ext MAX_LOOPS remainingDebt remainingCollateral)
               (\<lambda>(remainingDebt, remainingCollateral).
             andThen (if 0 < remainingCollateral then stashWithdraw ext remainingCollateral
                      else ret ()) (\<lambda>_.
             andThen (stashBorrowBalance ext self) (\<lambda>residualDebt.
               if 0 < residualDebt then revert ''Unwind incomplete: residual debt remains''
               else
                 andThen (reads (\<lambda>s. userDebts s sender)) (\<lambda>storedDebt.
                 andThen (math (if storedDebt < storedDeposit
                                then safe_sub storedDeposit storedDebt
                                else Inr 0)) (\<lambda>netProceeds.
                 andThen (settleProceeds ext sender netProceeds) (\<lambda>(exitFee, userReceives).
                 andThen (writes (\<lambda>s. s\<lparr>userDeposits := (userDeposits s)(sender := 0)\<rparr>)) (\<lambda>_.
                 andThen (writes (\<lambda>s. s\<lparr>userDebts := (userDebts s)(sender := 0)\<rparr>)) (\<lambda>_.
                 andThen (writes (\<lambda>s. s\<lparr>activeUser := 0\<rparr>)) (\<lambda>_.
                 andThen (reads moto) (\<lambda>token.
                 andThen (reads stash) (\<lambda>pool.
                 andThen (safeDecreaseAllowance ext token pool u256_Max) (\<lambda>_.
                 andThen (emitEvent
                            (PositionClosed sender storedDeposit storedDebt userReceives exitFee))
                   (\<lambda>_.
                 andThen releaseGuard (\<lambda>_.
                   ret True))))))))))))))))))))))"

text \<open>
  The statements of \<^verbatim>\<open>closePosition\<close> after the unwind loop, as a function of the loop's final
  \<open>remainingDebt\<close> and \<open>remainingCollateral\<close>. It is \<open>closePosition\<close>'s own text, named so that
  proofs can treat the loop and what follows it one at a time (\<open>closePosition_phases\<close> below).
\<close>

definition closeAfterUnwind ::
  "'w extern \<Rightarrow> address \<Rightarrow> address \<Rightarrow> u256 \<Rightarrow> u256 \<times> u256 \<Rightarrow> ('w, bool) operation" where
  "closeAfterUnwind ext sender self storedDeposit =
     (\<lambda>(remainingDebt, remainingCollateral).
             andThen (if 0 < remainingCollateral then stashWithdraw ext remainingCollateral
                      else ret ()) (\<lambda>_.
             andThen (stashBorrowBalance ext self) (\<lambda>residualDebt.
               if 0 < residualDebt then revert ''Unwind incomplete: residual debt remains''
               else
                 andThen (reads (\<lambda>s. userDebts s sender)) (\<lambda>storedDebt.
                 andThen (math (if storedDebt < storedDeposit
                                then safe_sub storedDeposit storedDebt
                                else Inr 0)) (\<lambda>netProceeds.
                 andThen (settleProceeds ext sender netProceeds) (\<lambda>(exitFee, userReceives).
                 andThen (writes (\<lambda>s. s\<lparr>userDeposits := (userDeposits s)(sender := 0)\<rparr>)) (\<lambda>_.
                 andThen (writes (\<lambda>s. s\<lparr>userDebts := (userDebts s)(sender := 0)\<rparr>)) (\<lambda>_.
                 andThen (writes (\<lambda>s. s\<lparr>activeUser := 0\<rparr>)) (\<lambda>_.
                 andThen (reads moto) (\<lambda>token.
                 andThen (reads stash) (\<lambda>pool.
                 andThen (safeDecreaseAllowance ext token pool u256_Max) (\<lambda>_.
                 andThen (emitEvent
                            (PositionClosed sender storedDeposit storedDebt userReceives exitFee))
                   (\<lambda>_.
                 andThen releaseGuard (\<lambda>_.
                   ret True))))))))))))))"

subsection \<open>The reverts, under the spec's names\<close>

text \<open>
  The contract reverts with a message. The spec names the failures; each name stands for the
  message the source throws. The spec's LeverageOutOfRange covers two messages, one for each
  side of the range.
\<close>

definition Paused :: error where
  "Paused = Revert ''Contract is paused''"

definition Reentrant :: error where
  "Reentrant = Revert ''Reentrant call''"

definition BelowMinimumDeposit :: error where
  "BelowMinimumDeposit = Revert ''Amount below minimum deposit''"

definition LeverageAboveMaximum :: error where
  "LeverageAboveMaximum = Revert ''Leverage exceeds 3x cap''"

definition LeverageBelowMinimum :: error where
  "LeverageBelowMinimum = Revert ''Leverage must be >= 1x''"

definition LeverageOutOfRange :: "error \<Rightarrow> bool" where
  "LeverageOutOfRange e = (e = LeverageAboveMaximum \<or> e = LeverageBelowMinimum)"

definition PositionAlreadyActive :: error where
  "PositionAlreadyActive = Revert ''Another position is already active''"

definition NoOpenPosition :: error where
  "NoOpenPosition = Revert ''No open position''"

definition NotPositionOwner :: error where
  "NotPositionOwner = Revert ''Not position owner''"

definition HealthFactorTooLow :: error where
  "HealthFactorTooLow = Revert ''Health factor below minimum 1.5''"

definition UnwindIncomplete :: error where
  "UnwindIncomplete = Revert ''Unwind incomplete: residual debt remains''"

subsection \<open>Reading the log of external calls\<close>

type_synonym log = "(call \<times> response option) list"

fun isDeposit :: "call \<times> response option \<Rightarrow> bool" where
  "isDeposit (Stash_deposit _ _ _, _) = True"
| "isDeposit _ = False"

fun isBorrow :: "call \<times> response option \<Rightarrow> bool" where
  "isBorrow (Stash_borrow _ _ _, _) = True"
| "isBorrow _ = False"

fun isRepay :: "call \<times> response option \<Rightarrow> bool" where
  "isRepay (Stash_repay _ _ _, _) = True"
| "isRepay _ = False"

fun isWithdraw :: "call \<times> response option \<Rightarrow> bool" where
  "isWithdraw (Stash_withdraw _ _ _, _) = True"
| "isWithdraw _ = False"

fun isHealthQuery :: "call \<times> response option \<Rightarrow> bool" where
  "isHealthQuery (Stash_healthFactor _ _, _) = True"
| "isHealthQuery _ = False"

fun isTokenCall :: "call \<times> response option \<Rightarrow> bool" where
  "isTokenCall (OP20_transferFrom _ _ _ _, _) = True"
| "isTokenCall (OP20_transfer _ _ _, _) = True"
| "isTokenCall (OP20_increaseAllowance _ _ _, _) = True"
| "isTokenCall (OP20_decreaseAllowance _ _ _, _) = True"
| "isTokenCall _ = False"

text \<open>The values the pool answered to \<^verbatim>\<open>healthFactor\<close> and to \<^verbatim>\<open>borrowBalanceOf\<close>, in order.\<close>

fun healthReading :: "call \<times> response option \<Rightarrow> u256 option" where
  "healthReading (Stash_healthFactor _ _, Some (U256Data v)) = Some v"
| "healthReading _ = None"

definition healthReadings :: "log \<Rightarrow> u256 list" where
  "healthReadings t = List.map_filter healthReading t"

fun borrowBalanceReading :: "call \<times> response option \<Rightarrow> u256 option" where
  "borrowBalanceReading (Stash_borrowBalanceOf _ _, Some (U256Data v)) = Some v"
| "borrowBalanceReading _ = None"

definition borrowBalanceReadings :: "log \<Rightarrow> u256 list" where
  "borrowBalanceReadings t = List.map_filter borrowBalanceReading t"

text \<open>Every borrow in the log is followed at once by a health-factor query.\<close>

fun borrowsChecked :: "log \<Rightarrow> bool" where
  "borrowsChecked [] = True"
| "borrowsChecked [e] = (\<not> isBorrow e)"
| "borrowsChecked (e # e' # t) = ((isBorrow e \<longrightarrow> isHealthQuery e') \<and> borrowsChecked (e' # t))"

text \<open>The amounts supplied to the pool, added up as natural numbers.\<close>

fun depositedAmount :: "call \<times> response option \<Rightarrow> nat" where
  "depositedAmount (Stash_deposit _ _ a, _) = unat a"
| "depositedAmount _ = 0"

definition totalSupplied :: "log \<Rightarrow> nat" where
  "totalSupplied t = sum_list (map depositedAmount t)"

text \<open>The token transfers \<^verbatim>\<open>transfer(to, amount)\<close> in the log: token, recipient, amount.\<close>

fun transferOf :: "call \<times> response option \<Rightarrow> (address \<times> address \<times> u256) option" where
  "transferOf (OP20_transfer token to a, _) = Some (token, to, a)"
| "transferOf _ = None"

definition transfers :: "log \<Rightarrow> (address \<times> address \<times> u256) list" where
  "transfers t = List.map_filter transferOf t"

text \<open>The last call in the log that went to the pool rather than to the token.\<close>

definition lastPoolCall :: "log \<Rightarrow> (call \<times> response option) option" where
  "lastPoolCall t = foldl (\<lambda>acc e. if isTokenCall e then acc else Some e) None t"

subsection \<open>The spec's words, for comparison\<close>

text \<open>
  The withdrawal of one unwind iteration as the spec words it: half of the collateral; the
  excess over the debt instead, if the collateral exceeds the debt and the excess is larger;
  clamped to at least 1 and at most the collateral.
\<close>

definition spec_withdrawAmount :: "u256 \<Rightarrow> u256 \<Rightarrow> u256" where
  "spec_withdrawAmount c d =
     min c (max 1 (if d < c \<and> c div 2 < c - d then c - d else c div 2))"

text \<open>
  The spec's fee, \<open>(a * bps + 10000 - 1) / 10000\<close> in unbounded arithmetic; its net proceeds,
  from the stored deposit and the stored debt; and the transfers that pay them out: the exit fee
  to the treasury if it is not zero, then the remainder to the caller if it is not zero.
\<close>

definition spec_ceilFee :: "u256 \<Rightarrow> u256 \<Rightarrow> nat" where
  "spec_ceilFee a bps = (unat a * unat bps + 10000 - 1) div 10000"

definition spec_netProceeds :: "u256 \<Rightarrow> u256 \<Rightarrow> u256" where
  "spec_netProceeds storedDeposit storedDebt =
     (if storedDebt < storedDeposit then storedDeposit - storedDebt else 0)"

definition payouts :: "address \<Rightarrow> address \<Rightarrow> address \<Rightarrow> u256 \<Rightarrow> u256 \<Rightarrow> (address \<times> address \<times> u256) list" where
  "payouts token treasuryAddr caller exitFee userReceives =
     (if 0 < exitFee then [(token, treasuryAddr, exitFee)] else []) @
     (if 0 < userReceives then [(token, caller, userReceives)] else [])"

text \<open>
  The target of the leverage loop in the spec's words: the deposit net of the entry fee, times
  the leverage, divided by 1e18 and rounded down.
\<close>

definition spec_targetTotalDeposit :: "u256 \<Rightarrow> u256 \<Rightarrow> nat" where
  "spec_targetTotalDeposit amount targetLeverageE18 =
     (unat amount - spec_ceilFee amount 50) * unat targetLeverageE18 div 10 ^ 18"

text \<open>
  At most one non-empty position: only the active user may have a stored deposit or debt, and
  no user has one when the active user is the zero address.
\<close>

definition hasPosition :: "storage \<Rightarrow> address \<Rightarrow> bool" where
  "hasPosition s u = (userDeposits s u \<noteq> 0 \<or> userDebts s u \<noteq> 0)"

definition singlePosition :: "storage \<Rightarrow> bool" where
  "singlePosition s = (\<forall>u. hasPosition s u \<longrightarrow> u = activeUser s \<and> u \<noteq> 0)"

text \<open>
  The machine with the paused flag set to \<open>p\<close>, and what it is for an operation never to
  read that flag: it runs the same whatever the flag, and leaves the flag as it found it.
\<close>

definition withPaused :: "bool \<Rightarrow> 'w machine \<Rightarrow> 'w machine" where
  "withPaused p m = m\<lparr>store := (store m)\<lparr>paused := p\<rparr>\<rparr>"

definition ignoresPaused :: "('w, 'a) operation \<Rightarrow> bool" where
  "ignoresPaused f = (\<forall>p m. f (withPaused p m) = (case f m of (r, m') \<Rightarrow> (r, withPaused p m')))"

subsection \<open>A small world for examples\<close>

text \<open>
  A token that accepts every call and a pool that keeps one account, as a pair (deposits,
  debt): 66 percent loan-to-value, health factor 80 percent of the deposits over the debt. It
  serves the examples only; the theorems hold for every world.
\<close>

definition samplePool :: "(u256 \<times> u256) extern" where
  "samplePool c w =
     (case c of
        Stash_deposit _ _ a \<Rightarrow> Some (NoData, (fst w + a, snd w))
      | Stash_borrow _ _ a \<Rightarrow> Some (NoData, (fst w, snd w + a))
      | Stash_repay _ _ a \<Rightarrow> if a \<le> snd w then Some (NoData, (fst w, snd w - a)) else None
      | Stash_withdraw _ _ a \<Rightarrow> if a \<le> fst w then Some (NoData, (fst w - a, snd w)) else None
      | Stash_healthFactor _ _ \<Rightarrow>
          Some (U256Data (if snd w = 0 then u256_Max else fst w * 80 * E18 div 100 div snd w), w)
      | Stash_borrowBalanceOf _ _ \<Rightarrow> Some (U256Data (snd w), w)
      | Stash_maxBorrowable _ _ \<Rightarrow>
          Some (U256Data (if fst w * 66 div 100 \<le> snd w then 0 else fst w * 66 div 100 - snd w), w)
      | Stash_depositBalanceOf _ _ \<Rightarrow> Some (U256Data (fst w), w)
      | _ \<Rightarrow> Some (BoolData True, w))"

definition sampleStore :: storage where
  "sampleStore = \<lparr>treasury = 11, stash = 12, moto = 13, paused = False, locked = False,
     totalFeesCollected = 0, activeUser = 0, userDeposits = (\<lambda>_. 0), userDebts = (\<lambda>_. 0)\<rparr>"

definition sampleMachine :: "(u256 \<times> u256) machine" where
  "sampleMachine = \<lparr>store = sampleStore, world = (0, 0), calls = [], emitted = []\<rparr>"

definition sampleOpened :: "(u256 \<times> u256) machine" where
  "sampleOpened =
     \<lparr>store = \<lparr>treasury = 11, stash = 12, moto = 13, paused = False, locked = False,
         totalFeesCollected = 50, activeUser = 1,
         userDeposits = (\<lambda>_. 0)(1 := 14925), userDebts = (\<lambda>_. 0)(1 := 4975)\<rparr>,
      world = (14925, 4975),
      calls =
        [(OP20_transferFrom 13 1 2 10000, Some (BoolData True)),
         (OP20_transfer 13 11 50, Some (BoolData True)),
         (OP20_increaseAllowance 13 12 (- 1), Some (BoolData True)),
         (Stash_deposit 12 13 9950, Some NoData),
         (Stash_maxBorrowable 12 2, Some (U256Data 6567)),
         (Stash_borrow 12 13 4975, Some NoData),
         (Stash_healthFactor 12 2, Some (U256Data 1600000000000000000)),
         (Stash_deposit 12 13 4975, Some NoData),
         (Stash_healthFactor 12 2, Some (U256Data 2400000000000000000))],
      emitted = [PositionOpened 1 10000 14925 4975 50]\<rparr>"

text \<open>
  The position of \<open>sampleOpened\<close> with a fresh log, and the same position over a pool whose debt
  equals its collateral, which five halvings cannot unwind.
\<close>

definition sampleHeld :: "(u256 \<times> u256) machine" where
  "sampleHeld = sampleOpened\<lparr>calls := []\<rparr>"

definition sampleStuck :: "(u256 \<times> u256) machine" where
  "sampleStuck = sampleOpened\<lparr>world := (64, 64), calls := []\<rparr>"

section \<open>Lemmas\<close>

subsection \<open>The fee\<close>

lemma feeRoundUp_50_Inr:
  assumes "unat a * 50 + 9999 < 2 ^ 256"
  shows "\<exists>f. feeRoundUp a 50 = Inr f \<and> unat f = (unat a * 50 + 9999) div 10000"
proof -
  have m: "unat a * 50 < 2 ^ 256" using assms by simp
  have um: "unat (a * 50) = unat a * 50"
    using m by (simp add: unat_mult_lem [THEN iffD1])
  have ua: "unat (a * 50 + 9999) = unat a * 50 + 9999"
    using assms um by (simp add: unat_add_lem [THEN iffD1])
  have "feeRoundUp a 50 = Inr ((a * 50 + 9999) div 10000)"
    using m assms um
    by (simp add: feeRoundUp_def safe_mul_def safe_sub_def safe_add_def safe_div_def
        orElse_def FEE_BASIS_def)
  moreover have "unat ((a * 50 + 9999) div 10000) = (unat a * 50 + 9999) div 10000"
    by (simp add: unat_div ua)
  ultimately show ?thesis by simp
qed

lemma feeRoundUp_50_Inl:
  assumes "\<not> unat a * 50 + 9999 < 2 ^ 256"
  shows "feeRoundUp a 50 = Inl ArithmeticOverflow"
proof (cases "unat a * 50 < 2 ^ 256")
  case True
  have um: "unat (a * 50) = unat a * 50"
    using True by (simp add: unat_mult_lem [THEN iffD1])
  show ?thesis using True assms um
    by (simp add: feeRoundUp_def safe_mul_def safe_sub_def safe_add_def safe_div_def
        orElse_def FEE_BASIS_def)
next
  case False
  then show ?thesis
    by (simp add: feeRoundUp_def safe_mul_def orElse_def)
qed

lemma feeRoundUp_50_mono:
  assumes "a \<le> b" and "feeRoundUp b 50 = Inr fb"
  shows "\<exists>fa. feeRoundUp a 50 = Inr fa \<and> fa \<le> fb"
proof -
  have ab: "unat a \<le> unat b" using assms(1) by (simp add: word_le_nat_alt)
  have nb: "unat b * 50 + 9999 < 2 ^ 256"
  proof (rule ccontr)
    assume "\<not> ?thesis"
    then have "feeRoundUp b 50 = Inl ArithmeticOverflow" by (rule feeRoundUp_50_Inl)
    with assms(2) show False by simp
  qed
  from feeRoundUp_50_Inr [OF nb] assms(2)
  have fb: "unat fb = (unat b * 50 + 9999) div 10000" by auto
  have na: "unat a * 50 + 9999 < 2 ^ 256" using ab nb by simp
  from feeRoundUp_50_Inr [OF na] obtain fa
    where fa: "feeRoundUp a 50 = Inr fa" "unat fa = (unat a * 50 + 9999) div 10000" by blast
  have "unat fa \<le> unat fb"
    unfolding fa(2) fb using ab by (intro div_le_mono) simp
  then have "fa \<le> fb" by (simp add: word_le_nat_alt)
  with fa(1) show ?thesis by blast
qed

lemma feeRoundUp_50_pos:
  assumes "unat a * 50 + 9999 < 2 ^ 256"
  shows "\<exists>f. feeRoundUp a 50 = Inr f \<and> (0 < a \<longrightarrow> 0 < f)"
proof -
  from feeRoundUp_50_Inr [OF assms] obtain f
    where f: "feeRoundUp a 50 = Inr f" "unat f = (unat a * 50 + 9999) div 10000" by blast
  have "0 < f" if "0 < a"
  proof -
    from that have "1 \<le> unat a" by (simp add: word_less_nat_alt)
    then have "10000 \<le> unat a * 50 + 9999" by simp
    then have "1 \<le> (unat a * 50 + 9999) div 10000"
      by (simp add: less_eq_div_iff_mult_less_eq)
    with f(2) have "0 < unat f" by simp
    then show ?thesis by (simp add: word_less_nat_alt)
  qed
  with f(1) show ?thesis by blast
qed

lemma feeRoundUp_199: "feeRoundUp 199 50 = Inr 1"
  by (simp add: feeRoundUp_def safe_mul_def safe_sub_def safe_add_def safe_div_def
      orElse_def FEE_BASIS_def)

lemma feeRoundUp_0: "feeRoundUp 0 50 = Inr 0"
  by (simp add: feeRoundUp_def safe_mul_def safe_sub_def safe_add_def safe_div_def
      orElse_def FEE_BASIS_def)

subsection \<open>Running a method step by step\<close>

lemma andThenE:
  assumes "andThen f g m = (r, m')"
  obtains (stop) e where "f m = (Inl e, m')" "r = Inl e"
        | (go) a m1 where "f m = (Inr a, m1)" "g a m1 = (r, m')"
  using assms by (auto simp: andThen_def split: prod.splits sum.splits)

lemma retE:
  assumes "ret a m = (r, m')" obtains "r = Inr a" "m' = m"
proof -
  from assms have "r = Inr a" and "m' = m" unfolding ret_def by simp_all
  then show thesis by (rule that)
qed

lemma revertE:
  assumes "revert s m = (r, m')" obtains "r = Inl (Revert s)" "m' = m"
proof -
  from assms have "r = Inl (Revert s)" and "m' = m" unfolding revert_def by simp_all
  then show thesis by (rule that)
qed

lemma mathE:
  assumes "math x m = (r, m')" obtains "r = x" "m' = m"
proof -
  from assms have "r = x" and "m' = m" unfolding math_def by simp_all
  then show thesis by (rule that)
qed

lemma readsE:
  assumes "reads fld m = (r, m')" obtains "r = Inr (fld (store m))" "m' = m"
proof -
  from assms have "(Inr (fld (store m)), m) = (r, m')"
    unfolding reads_def .
  then show thesis using that by blast
qed

lemma writesE:
  assumes "writes upd m = (r, m')"
  obtains "r = Inr ()" "store m' = upd (store m)" "calls m' = calls m" "emitted m' = emitted m"
    "world m' = world m"
proof -
  from assms have "r = Inr ()" and "m' = m\<lparr>store := upd (store m)\<rparr>"
    unfolding writes_def by simp_all
  then show thesis using that by simp
qed

lemma emitEventE:
  assumes "emitEvent ev m = (r, m')"
  obtains "r = Inr ()" "store m' = store m" "calls m' = calls m" "emitted m' = emitted m @ [ev]"
proof -
  from assms have "r = Inr ()" and "m' = m\<lparr>emitted := emitted m @ [ev]\<rparr>"
    unfolding emitEvent_def by simp_all
  then show thesis using that by simp
qed

lemma ifE:
  assumes "(if b then f else g) m = (r, m')"
  obtains "b" "f m = (r, m')" | "\<not> b" "g m = (r, m')"
proof (cases b)
  case True
  with assms have "f m = (r, m')" by simp
  with True show thesis by (rule that(1))
next
  case False
  with assms have "g m = (r, m')" by simp
  with False show thesis by (rule that(2))
qed

lemma case_prodE':
  assumes "case_prod h p m = (r, m')"
  obtains x y where "p = (x, y)" "h x y m = (r, m')"
  using assms by (cases p) simp

lemma callE:
  assumes "blockchainCall ext c m = (r, m')"
  obtains resp where "store m' = store m" "emitted m' = emitted m"
     "calls m' = calls m @ [(c, resp)]"
     "case r of Inl e \<Rightarrow> e = CallFailed \<and> resp = None | Inr d \<Rightarrow> resp = Some d"
  using assms by (auto simp: blockchainCall_def split: option.splits)

lemma readU256E:
  assumes "readU256 d m = (r, m')"
  obtains "m' = m"
    "case r of Inl e \<Rightarrow> e = MalformedResponse \<and> (\<forall>v. d \<noteq> U256Data v) | Inr v \<Rightarrow> d = U256Data v"
  using assms by (auto simp: readU256_def ret_def math_def split: response.splits)

subsection \<open>What each helper adds to the log\<close>

lemma safeTransferFromE:
  assumes "safeTransferFrom ext token from to a m = (r, m')"
  obtains resp where "store m' = store m" "emitted m' = emitted m"
     "calls m' = calls m @ [(OP20_transferFrom token from to a, resp)]"
  using assms unfolding safeTransferFrom_def
  by (elim andThenE ifE revertE retE callE) auto

lemma safeTransferE:
  assumes "safeTransfer ext token to a m = (r, m')"
  obtains resp where "store m' = store m" "emitted m' = emitted m"
     "calls m' = calls m @ [(OP20_transfer token to a, resp)]"
  using assms unfolding safeTransfer_def
  by (elim andThenE ifE revertE retE callE) auto

lemma safeIncreaseAllowanceE:
  assumes "safeIncreaseAllowance ext token spender a m = (r, m')"
  obtains resp where "store m' = store m" "emitted m' = emitted m"
     "calls m' = calls m @ [(OP20_increaseAllowance token spender a, resp)]"
  using assms unfolding safeIncreaseAllowance_def
  by (elim andThenE ifE revertE retE callE) auto

lemma safeDecreaseAllowanceE:
  assumes "safeDecreaseAllowance ext token spender a m = (r, m')"
  obtains resp where "store m' = store m" "emitted m' = emitted m"
     "calls m' = calls m @ [(OP20_decreaseAllowance token spender a, resp)]"
  using assms unfolding safeDecreaseAllowance_def
  by (elim andThenE ifE revertE retE callE) auto

lemma stashDepositE:
  assumes "stashDeposit ext a m = (r, m')"
  obtains resp where "store m' = store m" "emitted m' = emitted m"
     "calls m' = calls m @ [(Stash_deposit (stash (store m)) (moto (store m)) a, resp)]"
  using assms unfolding stashDeposit_def
  by (elim andThenE readsE retE callE) auto

lemma stashBorrowE:
  assumes "stashBorrow ext a m = (r, m')"
  obtains resp where "store m' = store m" "emitted m' = emitted m"
     "calls m' = calls m @ [(Stash_borrow (stash (store m)) (moto (store m)) a, resp)]"
  using assms unfolding stashBorrow_def
  by (elim andThenE readsE retE callE) auto

lemma stashRepayE:
  assumes "stashRepay ext a m = (r, m')"
  obtains resp where "store m' = store m" "emitted m' = emitted m"
     "calls m' = calls m @ [(Stash_repay (stash (store m)) (moto (store m)) a, resp)]"
  using assms unfolding stashRepay_def
  by (elim andThenE readsE retE callE) auto

lemma stashWithdrawE:
  assumes "stashWithdraw ext a m = (r, m')"
  obtains resp where "store m' = store m" "emitted m' = emitted m"
     "calls m' = calls m @ [(Stash_withdraw (stash (store m)) (moto (store m)) a, resp)]"
  using assms unfolding stashWithdraw_def
  by (elim andThenE readsE retE callE) auto

lemma stashMaxBorrowableE:
  assumes "stashMaxBorrowable ext self m = (r, m')"
  obtains resp where "store m' = store m" "emitted m' = emitted m"
     "calls m' = calls m @ [(Stash_maxBorrowable (stash (store m)) self, resp)]"
  using assms unfolding stashMaxBorrowable_def
  by (elim andThenE readsE retE readU256E callE) auto

lemma stashDepositBalanceE:
  assumes "stashDepositBalance ext self m = (r, m')"
  obtains resp where "store m' = store m" "emitted m' = emitted m"
     "calls m' = calls m @ [(Stash_depositBalanceOf (stash (store m)) self, resp)]"
  using assms unfolding stashDepositBalance_def
  by (elim andThenE readsE retE readU256E callE) auto

lemma stashBorrowBalanceE:
  assumes "stashBorrowBalance ext self m = (r, m')"
  obtains resp where "store m' = store m" "emitted m' = emitted m"
     "calls m' = calls m @ [(Stash_borrowBalanceOf (stash (store m)) self, resp)]"
     "borrowBalanceReadings [(Stash_borrowBalanceOf (stash (store m)) self, resp)] =
        (case r of Inr v \<Rightarrow> [v] | Inl e \<Rightarrow> [])"
  using assms unfolding stashBorrowBalance_def
  apply (elim andThenE readsE retE readU256E callE)
   apply (auto simp: borrowBalanceReadings_def map_filter_def split: sum.splits)
  subgoal for resp by (cases resp) auto
  done

lemma enforceHealthFactorE:
  assumes "enforceHealthFactor ext self m = (r, m')"
  obtains resp where "store m' = store m" "emitted m' = emitted m"
     "calls m' = calls m @ [(Stash_healthFactor (stash (store m)) self, resp)]"
     "\<forall>v\<in>set (healthReadings [(Stash_healthFactor (stash (store m)) self, resp)]).
         v < MIN_HEALTH_FACTOR_E18 \<longrightarrow> r = Inl HealthFactorTooLow"
     "\<forall>x. r = Inr x \<longrightarrow> (\<exists>v. resp = Some (U256Data v) \<and> MIN_HEALTH_FACTOR_E18 \<le> v)"
  using assms unfolding enforceHealthFactor_def stashHealthFactor_def HealthFactorTooLow_def
  apply (elim andThenE readsE retE readU256E revertE ifE callE)
        apply (auto simp: healthReadings_def map_filter_def split: sum.splits)
  subgoal for resp by (cases resp) auto
  done

lemma collectFeeE:
  assumes "collectFee ext fee m = (r, m')"
  obtains resp where "emitted m' = emitted m"
     "calls m' = calls m @ [(OP20_transfer (moto (store m)) (treasury (store m)) fee, resp)]"
     "treasury (store m') = treasury (store m)" "stash (store m') = stash (store m)"
     "moto (store m') = moto (store m)" "paused (store m') = paused (store m)"
     "locked (store m') = locked (store m)" "activeUser (store m') = activeUser (store m)"
     "userDeposits (store m') = userDeposits (store m)" "userDebts (store m') = userDebts (store m)"
  using assms unfolding collectFee_def
  by (elim andThenE readsE retE mathE writesE safeTransferE) auto

lemma nonReentrantE:
  assumes "nonReentrant m = (r, m')"
  obtains "locked (store m)" "r = Inl Reentrant" "m' = m"
        | "\<not> locked (store m)" "r = Inr ()" "m' = m\<lparr>store := (store m)\<lparr>locked := True\<rparr>\<rparr>"
  using assms unfolding nonReentrant_def Reentrant_def
  by (elim andThenE readsE ifE revertE) (auto simp: writes_def)

lemma whenNotPausedE:
  assumes "whenNotPaused m = (r, m')"
  obtains "paused (store m)" "r = Inl Paused" "m' = m"
        | "\<not> paused (store m)" "r = Inr ()" "m' = m"
  using assms unfolding whenNotPaused_def Paused_def
  by (elim andThenE readsE ifE revertE retE) auto

lemma releaseGuardE:
  assumes "releaseGuard m = (r, m')"
  obtains "r = Inr ()" "m' = m\<lparr>store := (store m)\<lparr>locked := False\<rparr>\<rparr>"
  using assms unfolding releaseGuard_def by (auto simp: writes_def)

text \<open>Rules for the outcomes a step cannot have, and the whole set for stepping through.\<close>

lemma ret_InlE: "ret a m = (Inl e, m') \<Longrightarrow> P"
  by (simp add: ret_def)
lemma revert_InrE: "revert s m = (Inr a, m') \<Longrightarrow> P"
  by (simp add: revert_def)
lemma reads_InlE: "reads fld m = (Inl e, m') \<Longrightarrow> P"
  by (simp add: reads_def)
lemma writes_InlE: "writes upd m = (Inl e, m') \<Longrightarrow> P"
  by (simp add: writes_def)
lemma emitEvent_InlE: "emitEvent ev m = (Inl e, m') \<Longrightarrow> P"
  by (simp add: emitEvent_def)
lemma releaseGuard_InlE: "releaseGuard m = (Inl e, m') \<Longrightarrow> P"
  by (simp add: releaseGuard_def writes_def)

lemma whenNotPaused_InlE:
  assumes "whenNotPaused m = (Inl e, m')"
  obtains "paused (store m)" "e = Paused" "m' = m"
  using assms by (elim whenNotPausedE) auto

lemma whenNotPaused_InrE:
  assumes "whenNotPaused m = (Inr a, m')"
  obtains "\<not> paused (store m)" "m' = m"
  using assms by (elim whenNotPausedE) auto

lemma nonReentrant_InlE:
  assumes "nonReentrant m = (Inl e, m')"
  obtains "locked (store m)" "e = Reentrant" "m' = m"
  using assms by (elim nonReentrantE) auto

lemma nonReentrant_InrE:
  assumes "nonReentrant m = (Inr a, m')"
  obtains "\<not> locked (store m)" "m' = m\<lparr>store := (store m)\<lparr>locked := True\<rparr>\<rparr>"
  using assms by (elim nonReentrantE) auto

lemmas stepE = ret_InlE revert_InrE reads_InlE writes_InlE emitEvent_InlE releaseGuard_InlE
  whenNotPaused_InlE whenNotPaused_InrE nonReentrant_InlE nonReentrant_InrE
  andThenE ifE retE revertE mathE readsE writesE emitEventE case_prodE' releaseGuardE


subsection \<open>Lists of log entries\<close>

lemma healthReadings_append [simp]:
  "healthReadings (s @ t) = healthReadings s @ healthReadings t"
  by (simp add: healthReadings_def map_filter_def)

lemma healthReadings_Nil [simp]: "healthReadings [] = []"
  by (simp add: healthReadings_def map_filter_def)

lemma borrowBalanceReadings_append [simp]:
  "borrowBalanceReadings (s @ t) = borrowBalanceReadings s @ borrowBalanceReadings t"
  by (simp add: borrowBalanceReadings_def map_filter_def)

lemma borrowBalanceReadings_Nil [simp]: "borrowBalanceReadings [] = []"
  by (simp add: borrowBalanceReadings_def map_filter_def)

lemma transfers_append [simp]: "transfers (s @ t) = transfers s @ transfers t"
  by (simp add: transfers_def map_filter_def)

lemma transfers_Nil [simp]: "transfers [] = []"
  by (simp add: transfers_def map_filter_def)

lemma totalSupplied_append [simp]: "totalSupplied (s @ t) = totalSupplied s + totalSupplied t"
  by (simp add: totalSupplied_def)

lemma totalSupplied_Nil [simp]: "totalSupplied [] = 0"
  by (simp add: totalSupplied_def)

lemma totalSupplied_take: "totalSupplied (take k t) \<le> totalSupplied t"
proof -
  have "totalSupplied t = totalSupplied (take k t) + totalSupplied (drop k t)"
    by (metis append_take_drop_id totalSupplied_append)
  then show ?thesis by simp
qed

lemma borrowsChecked_append:
  "borrowsChecked s \<Longrightarrow> borrowsChecked t \<Longrightarrow> borrowsChecked (s @ t)"
proof (induction s rule: borrowsChecked.induct)
  case 1
  then show ?case by simp
next
  case (2 e)
  then show ?case by (cases t) simp_all
next
  case (3 e e' s)
  then show ?case by simp
qed

subsection \<open>The leverage loop and the health factor\<close>

lemma borrowsChecked_Cons:
  "borrowsChecked (e # t) = ((isBorrow e \<longrightarrow> t \<noteq> [] \<and> isHealthQuery (hd t)) \<and> borrowsChecked t)"
  by (cases t) auto

lemma healthReadings_Cons:
  "healthReadings (e # t) = (case healthReading e of None \<Rightarrow> [] | Some v \<Rightarrow> [v]) @ healthReadings t"
  by (simp add: healthReadings_def map_filter_def split: option.splits)

lemma openLoop_health:
  "openLoop ext self target n td tb cur m = (r, m') \<Longrightarrow>
     store m' = store m \<and> emitted m' = emitted m \<and>
     (\<exists>t. calls m' = calls m @ t \<and>
        (\<forall>v\<in>set (healthReadings t). v < MIN_HEALTH_FACTOR_E18 \<longrightarrow>
            r = Inl HealthFactorTooLow) \<and>
        (\<forall>x. r = Inr x \<longrightarrow> borrowsChecked t))"
proof (induction n arbitrary: td tb cur m)
  case 0
  then show ?case by (simp add: ret_def)
next
  case (Suc n)
  show ?case
    using Suc.prems
    apply (simp only: openLoop.simps Let_def)
    apply (elim stepE stashDepositE stashBorrowE stashMaxBorrowableE enforceHealthFactorE)
    apply (auto dest!: Suc.IH simp: borrowsChecked_Cons healthReadings_Cons)
    done
qed

lemma openPosition_health:
  assumes "openPosition ext sender self amount targetLeverageE18 m = (r, m')"
  shows "\<exists>t. calls m' = calls m @ t \<and>
           (\<forall>v\<in>set (healthReadings t). v < MIN_HEALTH_FACTOR_E18 \<longrightarrow>
               r = Inl HealthFactorTooLow) \<and>
           (\<forall>ok. r = Inr ok \<longrightarrow> borrowsChecked t \<and> t \<noteq> [] \<and> isHealthQuery (last t) \<and>
               healthReadings t \<noteq> [])"
  using assms unfolding openPosition_def
  apply (elim stepE safeTransferFromE collectFeeE safeIncreaseAllowanceE enforceHealthFactorE)
  apply (auto dest!: openLoop_health simp: borrowsChecked_Cons healthReadings_Cons
      intro!: borrowsChecked_append)
  done

subsection \<open>Running the examples\<close>

lemmas run_defs = ret_def revert_def math_def andThen_def reads_def writes_def emitEvent_def
  blockchainCall_def nonReentrant_def releaseGuard_def whenNotPaused_def readU256_def reportsFailure_def
  safeTransferFrom_def safeTransfer_def safeIncreaseAllowance_def safeDecreaseAllowance_def
  stashDeposit_def stashBorrow_def stashRepay_def stashWithdraw_def stashHealthFactor_def
  stashBorrowBalance_def stashMaxBorrowable_def stashDepositBalance_def enforceHealthFactor_def
  collectFee_def openPosition_def closePosition_def settleProceeds_def withdrawAmount_def
  feeRoundUp_def safe_add_def safe_sub_def safe_mul_def safe_div_def orElse_def
  FEE_BASIS_def ENTRY_FEE_BPS_def EXIT_FEE_BPS_def MIN_DEPOSIT_def MAX_LEVERAGE_E18_def
  MIN_HEALTH_FACTOR_E18_def E18_def u256_Max_def
  samplePool_def sampleStore_def sampleMachine_def

lemmas run_congs = if_weak_cong prod.case_cong_weak sum.case_cong_weak option.case_cong_weak
  call.case_cong_weak response.case_cong_weak

lemma MAX_LOOPS_Suc: "MAX_LOOPS = Suc (Suc (Suc (Suc (Suc 0))))"
  by (simp add: MAX_LOOPS_def eval_nat_numeral)

lemma sample_open:
  "openPosition samplePool 1 2 10000 1500000000000000000 sampleMachine = (Inr True, sampleOpened)"
  by (simp add: run_defs MAX_LOOPS_Suc sampleOpened_def Let_def cong: run_congs)

lemma sample_open_risky:
  "\<exists>m'. openPosition samplePool 1 2 10000 2000000000000000000 sampleMachine =
          (Inl HealthFactorTooLow, m') \<and>
        healthReadings (calls m') = [1212121212121212121]"
  by (simp add: run_defs MAX_LOOPS_Suc Let_def healthReadings_Cons HealthFactorTooLow_def cong: run_congs)

subsection \<open>The unwind loop and what follows it\<close>

lemma word_one_le_iff: "(1 :: u256) \<le> x \<longleftrightarrow> x \<noteq> 0"
proof -
  have "(1 :: u256) \<le> x \<longleftrightarrow> 1 \<le> unat x" by (simp add: word_le_nat_alt)
  also have "\<dots> \<longleftrightarrow> 0 < unat x" by arith
  also have "\<dots> \<longleftrightarrow> x \<noteq> 0" by (rule unat_gt_0)
  finally show ?thesis .
qed

lemma word_le_one_iff: "x \<le> (1 :: u256) \<longleftrightarrow> x = 0 \<or> x = 1"
proof -
  have "x \<le> (1 :: u256) \<longleftrightarrow> unat x \<le> 1" by (simp add: word_le_nat_alt)
  also have "\<dots> \<longleftrightarrow> unat x = 0 \<or> unat x = 1" by arith
  also have "\<dots> \<longleftrightarrow> x = 0 \<or> x = 1" by (simp add: word_unat_eq_iff)
  finally show ?thesis .
qed

lemma clamp_spec:
  "(let w = (if x = 0 then 1 else x); w = (if c < w then c else w) in Inr w)
     = (Inr (min c (max 1 x)) :: error + u256)"
  by (auto simp: Let_def min_def max_def word_one_le_iff word_le_one_iff word_gt_0)

lemma orElse_Inr: "orElse (Inr a) f = f a"
  by (simp add: orElse_def)

lemma orElse_Inl: "orElse (Inl e) f = Inl e"
  by (simp add: orElse_def)

lemma withdrawAmount_spec: "withdrawAmount c d = Inr (spec_withdrawAmount c d)"
proof -
  let ?x = "if d < c \<and> c div 2 < c - d then c - d else c div 2"
  have half: "safe_div c 2 = Inr (c div 2)" by (simp add: safe_div_def)
  have pick: "(if d < c
               then orElse (safe_sub c d) (\<lambda>excess. Inr (if c div 2 < excess then excess else c div 2))
               else Inr (c div 2)) = Inr ?x"
    by (auto simp: safe_sub_def orElse_def)
  have "withdrawAmount c d
        = (let w = (if ?x = 0 then 1 else ?x); w = (if c < w then c else w) in Inr w)"
    unfolding withdrawAmount_def half orElse_Inr pick by (simp only: orElse_Inr)
  also have "\<dots> = Inr (min c (max 1 ?x))" by (rule clamp_spec)
  finally show ?thesis by (simp add: spec_withdrawAmount_def)
qed

lemma spec_withdrawAmount_pos: "c \<noteq> 0 \<Longrightarrow> spec_withdrawAmount c d \<noteq> 0"
  by (auto simp: spec_withdrawAmount_def min_def max_def word_one_le_iff)

lemma spec_withdrawAmount_pos': "c \<noteq> 0 \<Longrightarrow> 0 < spec_withdrawAmount c d"
  using spec_withdrawAmount_pos [of c d] by (simp add: word_neq_0_conv)

lemma spec_withdrawAmount_le: "spec_withdrawAmount c d \<le> c"
  by (simp add: spec_withdrawAmount_def)

lemma openLoop_counts:
  "openLoop ext self target n td tb cur m = (r, m') \<Longrightarrow>
     \<exists>t. calls m' = calls m @ t \<and> length (filter isDeposit t) \<le> n \<and>
          length (filter isBorrow t) \<le> n"
proof (induction n arbitrary: td tb cur m)
  case 0
  then show ?case by (simp add: ret_def)
next
  case (Suc n)
  show ?case
    using Suc.prems
    apply (simp only: openLoop.simps Let_def)
    apply (elim stepE stashDepositE stashBorrowE stashMaxBorrowableE enforceHealthFactorE)
    apply (auto dest!: Suc.IH)
    done
qed

lemma openPosition_counts:
  assumes "openPosition ext sender self amount targetLeverageE18 m = (r, m')"
  shows "\<exists>t. calls m' = calls m @ t \<and> length (filter isDeposit t) \<le> MAX_LOOPS \<and>
           length (filter isBorrow t) \<le> MAX_LOOPS"
  using assms unfolding openPosition_def
  apply (elim stepE safeTransferFromE collectFeeE safeIncreaseAllowanceE enforceHealthFactorE)
  apply (auto dest!: openLoop_counts)
  done

lemma closeLoop_counts:
  "closeLoop ext n d c m = (r, m') \<Longrightarrow>
     store m' = store m \<and> emitted m' = emitted m \<and>
     (\<exists>t. calls m' = calls m @ t \<and> length (filter isRepay t) \<le> n \<and>
          length (filter isWithdraw t)
            \<le> length (filter isRepay t) + (case r of Inl _ \<Rightarrow> 1 | Inr _ \<Rightarrow> 0) \<and>
          borrowBalanceReadings t = [] \<and> transfers t = [] \<and> list_all (\<lambda>e. \<not> isTokenCall e) t)"
proof (induction n arbitrary: d c m)
  case 0
  then show ?case by (simp add: ret_def)
next
  case (Suc n)
  show ?case
    using Suc.prems
    apply (simp only: closeLoop.simps Let_def withdrawAmount_spec)
    apply (elim stepE stashWithdrawE stashRepayE)
    apply (auto dest!: Suc.IH simp: spec_withdrawAmount_pos' word_neq_0_conv
        borrowBalanceReadings_def transfers_def map_filter_def split: if_splits)
    done
qed


lemma feeRoundUp_le:
  assumes "feeRoundUp a 50 = Inr f"
  shows "f \<le> a"
proof -
  have n: "unat a * 50 + 9999 < 2 ^ 256"
  proof (rule ccontr)
    assume "\<not> ?thesis"
    then have "feeRoundUp a 50 = Inl ArithmeticOverflow" by (rule feeRoundUp_50_Inl)
    with assms show False by simp
  qed
  from feeRoundUp_50_Inr [OF n] assms
  have "unat f = (unat a * 50 + 9999) div 10000" by auto
  also have "\<dots> \<le> unat a" by simp
  finally show ?thesis by (simp add: word_le_nat_alt)
qed

lemma settleProceedsE:
  assumes "settleProceeds ext sender np m = (r, m')"
  obtains t where "calls m' = calls m @ t" "emitted m' = emitted m"
    "list_all isTokenCall t" "filter isRepay t = []" "filter isWithdraw t = []"
    "borrowBalanceReadings t = []"
    "treasury (store m') = treasury (store m)" "stash (store m') = stash (store m)"
    "moto (store m') = moto (store m)" "paused (store m') = paused (store m)"
    "locked (store m') = locked (store m)" "activeUser (store m') = activeUser (store m)"
    "userDeposits (store m') = userDeposits (store m)" "userDebts (store m') = userDebts (store m)"
    "\<forall>exitFee userReceives. r = Inr (exitFee, userReceives) \<longrightarrow>
        feeRoundUp np EXIT_FEE_BPS = Inr exitFee \<and> exitFee \<le> np \<and> userReceives = np - exitFee \<and>
        transfers t =
          (if 0 < exitFee then [(moto (store m), treasury (store m), exitFee)] else []) @
          (if 0 < userReceives then [(moto (store m), sender, userReceives)] else [])"
  using assms unfolding settleProceeds_def
  apply (elim stepE collectFeeE safeTransferE)
  apply (auto simp: transfers_def borrowBalanceReadings_def map_filter_def safe_sub_def
      EXIT_FEE_BPS_def feeRoundUp_0 word_gt_0 dest: feeRoundUp_le split: if_splits)
  done

lemma andThen_InrE:
  assumes "andThen f g m = (Inr b, m')"
  obtains a m1 where "f m = (Inr a, m1)" "g a m1 = (Inr b, m')"
  using assms by (auto simp: andThen_def split: prod.splits sum.splits)

lemma foldl_tokens:
  "list_all isTokenCall t \<Longrightarrow> foldl (\<lambda>acc e. if isTokenCall e then acc else Some e) acc t = acc"
  by (induction t arbitrary: acc) auto

lemma closePosition_phases:
  "closePosition ext sender self =
     andThen nonReentrant (\<lambda>_.
     andThen (reads (\<lambda>s. userDeposits s sender)) (\<lambda>storedDeposit.
       if storedDeposit = 0 then revert ''No open position''
       else
         andThen (reads activeUser) (\<lambda>active.
           if active \<noteq> sender then revert ''Not position owner''
           else
             andThen (stashBorrowBalance ext self) (\<lambda>remainingDebt.
             andThen (stashDepositBalance ext self) (\<lambda>remainingCollateral.
             andThen (reads moto) (\<lambda>token.
             andThen (reads stash) (\<lambda>pool.
             andThen (safeIncreaseAllowance ext token pool u256_Max) (\<lambda>_.
             andThen (closeLoop ext MAX_LOOPS remainingDebt remainingCollateral)
               (closeAfterUnwind ext sender self storedDeposit)))))))))"
  unfolding closePosition_def closeAfterUnwind_def ..

lemma closeAfterUnwind_counts:
  assumes "closeAfterUnwind ext sender self sd dc m = (r, m')"
  shows "\<exists>t. calls m' = calls m @ t \<and> filter isRepay t = [] \<and>
     length (filter isWithdraw t) \<le> 1"
  using assms unfolding closeAfterUnwind_def
  apply (elim stepE stashBorrowBalanceE stashWithdrawE settleProceedsE safeDecreaseAllowanceE)
  apply auto
  done

lemma closePosition_counts:
  assumes "closePosition ext sender self m = (r, m')"
  shows "\<exists>t. calls m' = calls m @ t \<and>
     length (filter isRepay t) \<le> MAX_LOOPS \<and>
     length (filter isWithdraw t) \<le> length (filter isRepay t) + 1"
  using assms unfolding closePosition_phases
  apply (elim stepE stashBorrowBalanceE stashDepositBalanceE safeIncreaseAllowanceE)
  apply (auto dest!: closeLoop_counts closeAfterUnwind_counts)
  done


lemma stashBorrowBalance_InrE:
  assumes "stashBorrowBalance ext self m = (Inr v, m')"
  obtains "store m' = store m" "emitted m' = emitted m"
     "calls m' = calls m @ [(Stash_borrowBalanceOf (stash (store m)) self, Some (U256Data v))]"
  using assms unfolding stashBorrowBalance_def
  by (elim andThen_InrE stepE readU256E callE) auto

lemma settleProceeds_InrE:
  assumes "settleProceeds ext sender np m = (Inr p, m')"
  obtains t where "calls m' = calls m @ t" "emitted m' = emitted m"
    "list_all isTokenCall t" "borrowBalanceReadings t = []"
    "treasury (store m') = treasury (store m)" "stash (store m') = stash (store m)"
    "moto (store m') = moto (store m)" "activeUser (store m') = activeUser (store m)"
    "userDeposits (store m') = userDeposits (store m)" "userDebts (store m') = userDebts (store m)"
    "feeRoundUp np EXIT_FEE_BPS = Inr (fst p)" "fst p \<le> np" "snd p = np - fst p"
    "transfers t = payouts (moto (store m)) (treasury (store m)) sender (fst p) (snd p)"
  using assms by (cases p, elim settleProceedsE) (auto simp: payouts_def)

lemma borrowBalanceReadings_Cons:
  "borrowBalanceReadings (e # t) =
     (case borrowBalanceReading e of None \<Rightarrow> [] | Some v \<Rightarrow> [v]) @ borrowBalanceReadings t"
  by (simp add: borrowBalanceReadings_def map_filter_def split: option.splits)

lemma transfers_Cons:
  "transfers (e # t) = (case transferOf e of None \<Rightarrow> [] | Some x \<Rightarrow> [x]) @ transfers t"
  by (simp add: transfers_def map_filter_def split: option.splits)

lemma netProceeds_math:
  "(if b < a then safe_sub a b else Inr 0) = Inr (spec_netProceeds a b)"
  by (auto simp: safe_sub_def spec_netProceeds_def)

lemma closeAfterUnwind_success:
  assumes "closeAfterUnwind ext sender self sd dc m = (Inr ok, m')"
  shows "\<exists>t exitFee.
     calls m' = calls m @ t \<and> borrowBalanceReadings t = [0] \<and>
     (\<forall>acc. foldl (\<lambda>acc e. if isTokenCall e then acc else Some e) acc t
       = Some (Stash_borrowBalanceOf (stash (store m)) self, Some (U256Data 0))) \<and>
     activeUser (store m') = 0 \<and>
     userDeposits (store m') = (userDeposits (store m))(sender := 0) \<and>
     userDebts (store m') = (userDebts (store m))(sender := 0) \<and>
     feeRoundUp (spec_netProceeds sd (userDebts (store m) sender)) EXIT_FEE_BPS = Inr exitFee \<and>
     exitFee \<le> spec_netProceeds sd (userDebts (store m) sender) \<and>
     transfers t = payouts (moto (store m)) (treasury (store m)) sender exitFee
                     (spec_netProceeds sd (userDebts (store m) sender) - exitFee) \<and>
     emitted m' = emitted m @
       [PositionClosed sender sd (userDebts (store m) sender)
          (spec_netProceeds sd (userDebts (store m) sender) - exitFee) exitFee]"
  using assms unfolding closeAfterUnwind_def netProceeds_math
  apply (elim andThen_InrE stashBorrowBalance_InrE settleProceeds_InrE stepE stashWithdrawE
      safeDecreaseAllowanceE)
  apply (simp_all add: foldl_tokens word_gt_0 borrowBalanceReadings_Cons transfers_Cons)
  done


lemma closeAfterUnwind_residual:
  assumes "closeAfterUnwind ext sender self sd dc m = (r, m')"
  shows "\<exists>t. calls m' = calls m @ t \<and>
     (\<forall>d1 rest. borrowBalanceReadings t = d1 # rest \<longrightarrow> d1 \<noteq> 0 \<longrightarrow> r = Inl UnwindIncomplete)"
  using assms unfolding closeAfterUnwind_def UnwindIncomplete_def
  apply (elim stepE stashBorrowBalance_InrE stashBorrowBalanceE stashWithdrawE settleProceedsE
      safeDecreaseAllowanceE)
  apply (auto simp: borrowBalanceReadings_Cons word_gt_0)
  done

lemma closePosition_residual:
  assumes "closePosition ext sender self m = (r, m')"
  shows "\<exists>t. calls m' = calls m @ t \<and>
     (\<forall>d0 d1 rest. borrowBalanceReadings t = d0 # d1 # rest \<longrightarrow> d1 \<noteq> 0 \<longrightarrow>
         r = Inl UnwindIncomplete)"
  using assms unfolding closePosition_phases
  apply (elim stepE stashBorrowBalance_InrE stashBorrowBalanceE stashDepositBalanceE
      safeIncreaseAllowanceE)
  apply (auto dest!: closeLoop_counts closeAfterUnwind_residual
      simp: borrowBalanceReadings_Cons split: sum.splits)
  done

lemma closePosition_success:
  assumes "closePosition ext sender self m = (Inr ok, m')"
  shows "\<exists>t exitFee d0.
     calls m' = calls m @ t \<and> borrowBalanceReadings t = [d0, 0] \<and>
     lastPoolCall t = Some (Stash_borrowBalanceOf (stash (store m)) self, Some (U256Data 0)) \<and>
     activeUser (store m') = 0 \<and>
     userDeposits (store m') = (userDeposits (store m))(sender := 0) \<and>
     userDebts (store m') = (userDebts (store m))(sender := 0) \<and>
     feeRoundUp (spec_netProceeds (userDeposits (store m) sender) (userDebts (store m) sender))
       EXIT_FEE_BPS = Inr exitFee \<and>
     exitFee \<le> spec_netProceeds (userDeposits (store m) sender) (userDebts (store m) sender) \<and>
     transfers t = payouts (moto (store m)) (treasury (store m)) sender exitFee
        (spec_netProceeds (userDeposits (store m) sender) (userDebts (store m) sender) - exitFee) \<and>
     emitted m' = emitted m @
       [PositionClosed sender (userDeposits (store m) sender) (userDebts (store m) sender)
          (spec_netProceeds (userDeposits (store m) sender) (userDebts (store m) sender) - exitFee)
          exitFee]"
  using assms unfolding closePosition_phases lastPoolCall_def
  apply (elim andThen_InrE stepE stashBorrowBalance_InrE stashDepositBalanceE
      safeIncreaseAllowanceE)
  apply (drule closeLoop_counts)
  apply (drule closeAfterUnwind_success)
  apply (clarsimp simp: borrowBalanceReadings_Cons transfers_Cons)
  done

lemma sample_close:
  "\<exists>m'. closePosition samplePool 1 2 sampleHeld = (Inr True, m')"
  by (simp add: run_defs MAX_LOOPS_Suc sampleOpened_def sampleHeld_def Let_def cong: run_congs)

lemma sample_close_stuck:
  "\<exists>r m'. closePosition samplePool 1 2 sampleStuck = (r, m') \<and>
      borrowBalanceReadings (calls m') = [64, 2] \<and>
      length (filter isWithdraw (calls m')) = 6 \<and> length (filter isRepay (calls m')) = 5"
  by (simp add: run_defs MAX_LOOPS_Suc sampleOpened_def sampleStuck_def Let_def
      borrowBalanceReadings_Cons cong: run_congs)

lemma feeRoundUp_50_value:
  assumes "feeRoundUp a 50 = Inr f"
  shows "unat f = spec_ceilFee a 50"
proof -
  have n: "unat a * 50 + 9999 < 2 ^ 256"
  proof (rule ccontr)
    assume "\<not> ?thesis"
    then have "feeRoundUp a 50 = Inl ArithmeticOverflow" by (rule feeRoundUp_50_Inl)
    with assms show False by simp
  qed
  from feeRoundUp_50_Inr [OF n] assms
  show ?thesis by (auto simp: spec_ceilFee_def)
qed

lemma closeLoop_first_call:
  assumes "c \<noteq> 0" and "d \<noteq> 0" and "closeLoop ext (Suc n) d c m = (r, m')"
  shows "\<exists>resp rest. calls m' =
           calls m @ (Stash_withdraw (stash (store m)) (moto (store m)) (spec_withdrawAmount c d), resp) # rest"
  using assms(3) assms(1,2)
  apply (simp only: closeLoop.simps Let_def withdrawAmount_spec if_False)
  apply (elim stepE stashWithdrawE stashRepayE)
  apply (auto dest!: closeLoop_counts)
  done

subsection \<open>The checks of openPosition, and the single position\<close>

lemma openPosition_phases:
  "openPosition ext sender self amount targetLeverageE18 =
     andThen whenNotPaused (\<lambda>_.
     andThen nonReentrant (\<lambda>_.
       if amount < MIN_DEPOSIT then revert ''Amount below minimum deposit''
       else if MAX_LEVERAGE_E18 < targetLeverageE18 then revert ''Leverage exceeds 3x cap''
       else if targetLeverageE18 < E18 then revert ''Leverage must be >= 1x''
       else
         andThen (reads activeUser) (\<lambda>active.
           if active \<noteq> 0 then revert ''Another position is already active''
           else openFunded ext sender self amount targetLeverageE18)))"
  unfolding openPosition_def openFunded_def ..

lemma transact_Inl: "f m = (Inl e, m') \<Longrightarrow> calls m' = calls m \<Longrightarrow> transact f m = (Inl e, m)"
  by (simp add: transact_def)

lemma openPosition_rejections:
  assumes "openPosition ext sender self amount targetLeverageE18 m = (r, m')"
  shows "(paused (store m) \<longrightarrow> r = Inl Paused \<and> m' = m) \<and>
     (\<not> paused (store m) \<longrightarrow> locked (store m) \<longrightarrow> r = Inl Reentrant \<and> m' = m) \<and>
     (\<not> paused (store m) \<longrightarrow> \<not> locked (store m) \<longrightarrow>
        (amount < MIN_DEPOSIT \<longrightarrow>
           r = Inl BelowMinimumDeposit \<and> m' = m\<lparr>store := (store m)\<lparr>locked := True\<rparr>\<rparr>) \<and>
        (\<not> amount < MIN_DEPOSIT \<longrightarrow> MAX_LEVERAGE_E18 < targetLeverageE18 \<longrightarrow>
           r = Inl LeverageAboveMaximum \<and> m' = m\<lparr>store := (store m)\<lparr>locked := True\<rparr>\<rparr>) \<and>
        (\<not> amount < MIN_DEPOSIT \<longrightarrow> \<not> MAX_LEVERAGE_E18 < targetLeverageE18 \<longrightarrow>
           targetLeverageE18 < E18 \<longrightarrow>
           r = Inl LeverageBelowMinimum \<and> m' = m\<lparr>store := (store m)\<lparr>locked := True\<rparr>\<rparr>) \<and>
        (\<not> amount < MIN_DEPOSIT \<longrightarrow> \<not> MAX_LEVERAGE_E18 < targetLeverageE18 \<longrightarrow>
           \<not> targetLeverageE18 < E18 \<longrightarrow> activeUser (store m) \<noteq> 0 \<longrightarrow>
           r = Inl PositionAlreadyActive \<and> m' = m\<lparr>store := (store m)\<lparr>locked := True\<rparr>\<rparr>))"
  using assms
  unfolding openPosition_phases BelowMinimumDeposit_def LeverageAboveMaximum_def
    LeverageBelowMinimum_def PositionAlreadyActive_def
  apply (elim stepE)
  apply simp_all
  done

lemma openFunded_success:
  assumes "openFunded ext sender self amount targetLeverageE18 m = (Inr ok, m')"
  shows "activeUser (store m') = sender \<and>
     (\<exists>totalDeposited totalBorrowed.
        userDeposits (store m') = (userDeposits (store m))(sender := totalDeposited) \<and>
        userDebts (store m') = (userDebts (store m))(sender := totalBorrowed))"
  using assms unfolding openFunded_def
  apply (elim andThen_InrE stepE safeTransferFromE collectFeeE safeIncreaseAllowanceE
      enforceHealthFactorE)
  apply (auto dest!: openLoop_health)
  done

lemma openPosition_success:
  assumes "openPosition ext sender self amount targetLeverageE18 m = (Inr ok, m')"
  shows "activeUser (store m) = 0 \<and> activeUser (store m') = sender \<and>
     (\<exists>totalDeposited totalBorrowed.
        userDeposits (store m') = (userDeposits (store m))(sender := totalDeposited) \<and>
        userDebts (store m') = (userDebts (store m))(sender := totalBorrowed))"
  using assms unfolding openPosition_phases
  apply (elim andThen_InrE stepE)
  apply (auto dest!: openFunded_success)
  done

lemma closePosition_owner:
  assumes "closePosition ext sender self m = (Inr ok, m')"
  shows "activeUser (store m) = sender \<and> userDeposits (store m) sender \<noteq> 0"
  using assms unfolding closePosition_phases
  apply (elim andThen_InrE stepE stashBorrowBalanceE stashDepositBalanceE safeIncreaseAllowanceE)
  apply auto
  done


lemma transact_result:
  "transact f m = (case f m of (Inl e, m') \<Rightarrow> (Inl e, m\<lparr>calls := calls m'\<rparr>) | (Inr a, m') \<Rightarrow> (Inr a, m'))"
  by (simp add: transact_def)

lemma singlePosition_transact_open:
  assumes "singlePosition (store m)" and "sender \<noteq> 0"
  shows "singlePosition (store (snd (transact (openPosition ext sender self amount lev) m)))"
proof -
  obtain r m' where run: "openPosition ext sender self amount lev m = (r, m')"
    by (cases "openPosition ext sender self amount lev m")
  show ?thesis
  proof (cases r)
    case (Inl e)
    with run assms(1) show ?thesis by (simp add: transact_def)
  next
    case (Inr ok)
    with run have "openPosition ext sender self amount lev m = (Inr ok, m')" by simp
    from openPosition_success [OF this] obtain td tb where s:
      "activeUser (store m) = 0" "activeUser (store m') = sender"
      "userDeposits (store m') = (userDeposits (store m))(sender := td)"
      "userDebts (store m') = (userDebts (store m))(sender := tb)"
      by blast
    from assms(1) s(1) have none: "\<And>u. \<not> hasPosition (store m) u"
      by (auto simp: singlePosition_def)
    have "singlePosition (store m')"
      unfolding singlePosition_def
    proof (intro allI impI)
      fix u assume h: "hasPosition (store m') u"
      have "u = sender"
      proof (rule ccontr)
        assume "u \<noteq> sender"
        with h s(3,4) have "hasPosition (store m) u" by (simp add: hasPosition_def)
        with none show False by blast
      qed
      with s(2) assms(2) show "u = activeUser (store m') \<and> u \<noteq> 0" by simp
    qed
    with run Inr show ?thesis by (simp add: transact_def)
  qed
qed

lemma singlePosition_transact_close:
  assumes "singlePosition (store m)"
  shows "singlePosition (store (snd (transact (closePosition ext sender self) m)))"
proof -
  obtain r m' where run: "closePosition ext sender self m = (r, m')"
    by (cases "closePosition ext sender self m")
  show ?thesis
  proof (cases r)
    case (Inl e)
    with run assms(1) show ?thesis by (simp add: transact_def)
  next
    case (Inr ok)
    with run have ok: "closePosition ext sender self m = (Inr ok, m')" by simp
    from closePosition_owner [OF ok] have own: "activeUser (store m) = sender" by blast
    from closePosition_success [OF ok] have s:
      "userDeposits (store m') = (userDeposits (store m))(sender := 0)"
      "userDebts (store m') = (userDebts (store m))(sender := 0)"
      by blast+
    have "\<not> hasPosition (store m') u" for u
    proof
      assume h: "hasPosition (store m') u"
      with s have "u \<noteq> sender" by (auto simp: hasPosition_def)
      moreover from h s this have "hasPosition (store m) u" by (simp add: hasPosition_def)
      ultimately show False using assms own by (auto simp: singlePosition_def)
    qed
    then have "singlePosition (store m')" by (simp add: singlePosition_def)
    with run Inr show ?thesis by (simp add: transact_def)
  qed
qed

lemma openPosition_active:
  assumes "openPosition ext sender self amount lev m = (r, m')"
    and "activeUser (store m) \<noteq> 0"
  shows "((\<exists>e. r = Inl e) \<and> (m' = m \<or> m' = m\<lparr>store := (store m)\<lparr>locked := True\<rparr>\<rparr>)) \<and>
     (\<not> paused (store m) \<and> \<not> locked (store m) \<and> \<not> amount < MIN_DEPOSIT \<and>
            \<not> MAX_LEVERAGE_E18 < lev \<and> \<not> lev < E18 \<longrightarrow> r = Inl PositionAlreadyActive)"
  using assms unfolding openPosition_phases PositionAlreadyActive_def
  apply (elim stepE)
  apply simp_all
  done

subsection \<open>closePosition never reads the paused flag\<close>

lemma ignoresPaused_ret: "ignoresPaused (ret a)"
  by (simp add: ignoresPaused_def ret_def)

lemma ignoresPaused_revert: "ignoresPaused (revert s)"
  by (simp add: ignoresPaused_def revert_def)

lemma ignoresPaused_math: "ignoresPaused (math x)"
  by (simp add: ignoresPaused_def math_def)

lemma ignoresPaused_emitEvent: "ignoresPaused (emitEvent ev)"
  by (simp add: ignoresPaused_def emitEvent_def withPaused_def)

lemma ignoresPaused_call: "ignoresPaused (blockchainCall ext c)"
  by (simp add: ignoresPaused_def blockchainCall_def withPaused_def split: option.splits)

lemma ignoresPaused_reads:
  "(\<And>s p. fld (s\<lparr>paused := p\<rparr>) = fld s) \<Longrightarrow> ignoresPaused (reads fld)"
  by (simp add: ignoresPaused_def reads_def withPaused_def)

lemma ignoresPaused_writes:
  "(\<And>s p. upd (s\<lparr>paused := p\<rparr>) = (upd s)\<lparr>paused := p\<rparr>) \<Longrightarrow> ignoresPaused (writes upd)"
  by (simp add: ignoresPaused_def writes_def withPaused_def)

lemma ignoresPaused_andThen:
  "ignoresPaused f \<Longrightarrow> (\<And>a. ignoresPaused (g a)) \<Longrightarrow> ignoresPaused (andThen f g)"
  by (auto simp: ignoresPaused_def andThen_def split: prod.splits sum.splits)

lemma ignoresPaused_if:
  "ignoresPaused f \<Longrightarrow> ignoresPaused g \<Longrightarrow> ignoresPaused (if c then f else g)"
  by simp

lemma ignoresPaused_case_prod:
  "(\<And>a b. ignoresPaused (h a b)) \<Longrightarrow> ignoresPaused (case_prod h x)"
  by (cases x) simp

lemma ignoresPaused_readU256: "ignoresPaused (readU256 d)"
  by (cases d) (simp_all add: readU256_def ignoresPaused_ret ignoresPaused_math)

lemmas ignoresPaused_step = ignoresPaused_andThen ignoresPaused_if ignoresPaused_case_prod
  ignoresPaused_ret ignoresPaused_revert ignoresPaused_math ignoresPaused_emitEvent
  ignoresPaused_call ignoresPaused_readU256 ignoresPaused_reads ignoresPaused_writes

lemma ignoresPaused_helpers:
  "ignoresPaused nonReentrant"
  "ignoresPaused releaseGuard"
  "ignoresPaused (safeTransfer ext token to a)"
  "ignoresPaused (safeIncreaseAllowance ext token spender a)"
  "ignoresPaused (safeDecreaseAllowance ext token spender a)"
  "ignoresPaused (stashRepay ext a)"
  "ignoresPaused (stashWithdraw ext a)"
  "ignoresPaused (stashBorrowBalance ext self)"
  "ignoresPaused (stashDepositBalance ext self)"
  "ignoresPaused (collectFee ext fee)"
  unfolding nonReentrant_def releaseGuard_def safeTransfer_def safeIncreaseAllowance_def
    safeDecreaseAllowance_def stashRepay_def stashWithdraw_def stashBorrowBalance_def
    stashDepositBalance_def collectFee_def
  by (intro ignoresPaused_step; simp)+

lemma ignoresPaused_settleProceeds: "ignoresPaused (settleProceeds ext sender np)"
  unfolding settleProceeds_def
  by (intro ignoresPaused_step ignoresPaused_helpers; simp)

lemma ignoresPaused_closeLoop: "ignoresPaused (closeLoop ext n d c)"
proof (induction n arbitrary: d c)
  case 0
  show ?case by (simp add: ignoresPaused_ret)
next
  case (Suc n)
  show ?case
    unfolding closeLoop.simps Let_def
    by (intro ignoresPaused_step ignoresPaused_helpers Suc.IH)
qed

lemma ignoresPaused_closeAfterUnwind: "ignoresPaused (closeAfterUnwind ext sender self sd dc)"
  unfolding closeAfterUnwind_def
  by (intro ignoresPaused_step ignoresPaused_helpers ignoresPaused_settleProceeds; simp)

lemma ignoresPaused_closePosition: "ignoresPaused (closePosition ext sender self)"
  unfolding closePosition_phases
  by (intro ignoresPaused_step ignoresPaused_helpers ignoresPaused_closeLoop
      ignoresPaused_closeAfterUnwind; simp)

subsection \<open>What the leverage loop supplies\<close>

lemma safe_add_InrD: "Inr a = safe_add x y \<Longrightarrow> unat a = unat x + unat y"
  by (auto simp: safe_add_def unat_add_lem [THEN iffD1] split: if_splits)

lemma safe_sub_InrD: "Inr a = safe_sub x y \<Longrightarrow> unat a = unat x - unat y \<and> unat y \<le> unat x"
  by (auto simp: safe_sub_def unat_sub word_le_nat_alt split: if_splits)

lemma totalSupplied_Cons: "totalSupplied (e # t) = depositedAmount e + totalSupplied t"
  by (simp add: totalSupplied_def)

lemma openLoop_supply:
  "openLoop ext self target n td tb cur m = (r, m') \<Longrightarrow> unat td + unat cur \<le> unat target \<Longrightarrow>
     \<exists>t. calls m' = calls m @ t \<and> unat td + totalSupplied t \<le> unat target \<and>
         (\<forall>td' tb'. r = Inr (td', tb') \<longrightarrow> unat td' = unat td + totalSupplied t)"
proof (induction n arbitrary: td tb cur m)
  case 0
  then show ?case by (auto simp: ret_def)
next
  case (Suc n)
  show ?case
    using Suc.prems
    apply (simp only: openLoop.simps Let_def)
    apply (elim stepE stashDepositE stashBorrowE stashMaxBorrowableE enforceHealthFactorE)
    apply (auto dest!: safe_add_InrD safe_sub_InrD Suc.IH
        simp: totalSupplied_Cons word_le_nat_alt word_less_nat_alt)
    done
qed


lemma unat_E18: "unat E18 = 10 ^ 18"
  by (simp add: E18_def)

lemma target_value:
  assumes "Inr target = orElse (safe_mul nd lev) (\<lambda>product. safe_div product E18)"
  shows "unat target = unat nd * unat lev div 10 ^ 18"
proof -
  have ok: "unat nd * unat lev < 2 ^ 256"
  proof (rule ccontr)
    assume "\<not> ?thesis"
    then have "safe_mul nd lev = Inl ArithmeticOverflow" by (simp add: safe_mul_def)
    with assms show False by (simp add: orElse_def)
  qed
  then have m: "safe_mul nd lev = Inr (nd * lev)" by (simp add: safe_mul_def)
  have um: "unat (nd * lev) = unat nd * unat lev"
    using ok by (simp add: unat_mult_lem [THEN iffD1])
  have "E18 \<noteq> 0" by (simp add: E18_def)
  with assms m have "target = nd * lev div E18" by (simp add: orElse_def safe_div_def)
  then show ?thesis by (simp add: unat_div um unat_E18)
qed

lemma funding_math:
  assumes "Inr fee = feeRoundUp amount ENTRY_FEE_BPS"
    and "Inr nd = safe_sub amount fee"
    and "Inr target = orElse (safe_mul nd lev) (\<lambda>product. safe_div product E18)"
    and "\<not> lev < E18"
  shows "unat target = spec_targetTotalDeposit amount lev \<and> unat nd \<le> unat target"
proof -
  from assms(1) have "feeRoundUp amount 50 = Inr fee" by (simp add: ENTRY_FEE_BPS_def)
  then have fee: "unat fee = spec_ceilFee amount 50" by (rule feeRoundUp_50_value)
  from safe_sub_InrD [OF assms(2)] have nd: "unat nd = unat amount - unat fee" by simp
  from target_value [OF assms(3)] have t: "unat target = unat nd * unat lev div 10 ^ 18" .
  from assms(4) have "10 ^ 18 \<le> unat lev"
    by (simp add: word_less_nat_alt unat_E18 not_less)
  then have "unat nd * 10 ^ 18 \<le> unat nd * unat lev" by simp
  then have "unat nd * 10 ^ 18 div 10 ^ 18 \<le> unat nd * unat lev div 10 ^ 18"
    by (rule div_le_mono)
  then have "unat nd \<le> unat target" by (simp add: t)
  with t nd fee show ?thesis by (simp add: spec_targetTotalDeposit_def)
qed

lemma openFunded_supply:
  assumes "openFunded ext sender self amount lev m = (r, m')" and "\<not> lev < E18"
  shows "\<exists>t. calls m' = calls m @ t \<and> totalSupplied t \<le> spec_targetTotalDeposit amount lev \<and>
     (\<forall>ok. r = Inr ok \<longrightarrow> unat (userDeposits (store m') sender) = totalSupplied t)"
  using assms unfolding openFunded_def
  apply (elim stepE safeTransferFromE collectFeeE safeIncreaseAllowanceE enforceHealthFactorE)
  apply (auto simp: totalSupplied_Cons dest!: funding_math dest: openLoop_supply)
  done


lemma openPosition_supply:
  assumes "openPosition ext sender self amount lev m = (r, m')"
  shows "\<exists>t. calls m' = calls m @ t \<and> totalSupplied t \<le> spec_targetTotalDeposit amount lev \<and>
     (\<forall>ok. r = Inr ok \<longrightarrow> unat (userDeposits (store m') sender) = totalSupplied t)"
  using assms unfolding openPosition_phases
  apply (elim stepE)
  apply (auto dest!: openFunded_supply)
  done

section \<open>The claims\<close>

subsection \<open>C3: the fee function\<close>

text \<open>
  C3, as amended. \<^verbatim>\<open>feeRoundUp(amount, 50)\<close> is non-decreasing in \<open>amount\<close>: where it returns
  for \<open>b\<close> it returns for every \<open>a \<le> b\<close>, with a fee that is not larger. It returns whenever
  \<open>amount * 50 + 9999\<close> fits in 256 bits, and the fee is then positive for every amount of at
  least 200, indeed for every amount that is not zero; beyond that it fails with
  ArithmeticOverflow. At 199 the fee is 1, not 0: rounding up leaves no dust amount other than 0.
\<close>

theorem ceilFee_monotone_positive:
  "(\<forall>a b fb. a \<le> b \<longrightarrow> feeRoundUp b 50 = Inr fb \<longrightarrow>
       (\<exists>fa. feeRoundUp a 50 = Inr fa \<and> fa \<le> fb))
   \<and> (\<forall>a. unat a * 50 + 9999 < 2 ^ 256 \<longrightarrow>
         (\<exists>f. feeRoundUp a 50 = Inr f \<and> (200 \<le> a \<longrightarrow> 0 < f) \<and> (0 < a \<longrightarrow> 0 < f)))
   \<and> (\<forall>a. 2 ^ 256 \<le> unat a * 50 + 9999 \<longrightarrow> feeRoundUp a 50 = Inl ArithmeticOverflow)
   \<and> feeRoundUp 199 50 = Inr 1
   \<and> feeRoundUp 0 50 = Inr 0"
proof (intro conjI allI impI)
  fix a b fb assume "a \<le> b" "feeRoundUp b 50 = Inr fb"
  then show "\<exists>fa. feeRoundUp a 50 = Inr fa \<and> fa \<le> fb" by (rule feeRoundUp_50_mono)
next
  fix a :: u256 assume n: "unat a * 50 + 9999 < 2 ^ 256"
  from feeRoundUp_50_pos [OF n] obtain f where f: "feeRoundUp a 50 = Inr f" "0 < a \<longrightarrow> 0 < f"
    by blast
  have "200 \<le> a \<longrightarrow> 0 < a" by (auto simp: word_le_nat_alt word_less_nat_alt)
  with f show "\<exists>f. feeRoundUp a 50 = Inr f \<and> (200 \<le> a \<longrightarrow> 0 < f) \<and> (0 < a \<longrightarrow> 0 < f)"
    by blast
next
  fix a :: u256 assume "2 ^ 256 \<le> unat a * 50 + 9999"
  then have "\<not> unat a * 50 + 9999 < 2 ^ 256" by simp
  then show "feeRoundUp a 50 = Inl ArithmeticOverflow" by (rule feeRoundUp_50_Inl)
next
  show "feeRoundUp 199 50 = Inr 1" by (rule feeRoundUp_199)
next
  show "feeRoundUp 0 50 = Inr 0" by (rule feeRoundUp_0)
qed

theorem ceilFee_monotone_positive_witness:
  "(\<exists>fa. feeRoundUp 199 50 = Inr fa \<and> fa \<le> 1)
   \<and> (\<exists>f. feeRoundUp 200 50 = Inr f \<and> 0 < f)
   \<and> feeRoundUp (2 ^ 255) 50 = Inl ArithmeticOverflow"
proof -
  have h1: "(199 :: u256) \<le> 200" by simp
  have h2: "feeRoundUp 200 50 = Inr 1"
    by (simp add: feeRoundUp_def safe_mul_def safe_sub_def safe_add_def safe_div_def
        orElse_def FEE_BASIS_def)
  have h3: "unat (200 :: u256) * 50 + 9999 < 2 ^ 256" by simp
  have h4: "(200 :: u256) \<le> 200" by simp
  have h5: "2 ^ 256 \<le> unat (2 ^ 255 :: u256) * 50 + 9999" by simp
  note t = ceilFee_monotone_positive
  from t [THEN conjunct1, rule_format, OF h1 h2]
  have a: "\<exists>fa. feeRoundUp 199 50 = Inr fa \<and> fa \<le> 1" .
  from t [THEN conjunct2, THEN conjunct1, rule_format, OF h3] h4
  have b: "\<exists>f. feeRoundUp 200 50 = Inr f \<and> 0 < f" by blast
  from t [THEN conjunct2, THEN conjunct2, THEN conjunct1, rule_format, OF h5]
  have c: "feeRoundUp (2 ^ 255) 50 = Inl ArithmeticOverflow" .
  from a b c show ?thesis by blast
qed

text \<open>The claim's dust boundary, a fee of 0 at amount 199, fails on the code.\<close>

theorem ceilFee_dust_counterexample: "feeRoundUp 199 50 \<noteq> Inr 0"
  by (simp add: feeRoundUp_def safe_mul_def safe_sub_def safe_add_def safe_div_def
      orElse_def FEE_BASIS_def)

subsection \<open>C1: the health factor is checked after every borrow and at the end\<close>

text \<open>
  C1. Take any call of \<^verbatim>\<open>openPosition\<close>, in any world, and the log \<open>t\<close> of the external calls
  it makes. If any \<^verbatim>\<open>healthFactor\<close> query in \<open>t\<close> was answered with a value below
  \<^verbatim>\<open>MIN_HEALTH_FACTOR_E18\<close> (1.5e18), the call fails with HealthFactorTooLow. So a call that
  succeeds saw only values of at least 1.5e18; in its log every borrow is followed at once by a
  health-factor query, and the last call of all is the final health-factor query, which was
  answered.
\<close>

theorem openPosition_health_factor_enforced:
  assumes "openPosition ext sender self amount targetLeverageE18 m = (r, m')"
  shows "\<exists>t. calls m' = calls m @ t \<and>
           (\<forall>v\<in>set (healthReadings t). v < MIN_HEALTH_FACTOR_E18 \<longrightarrow>
               r = Inl HealthFactorTooLow) \<and>
           (\<forall>ok. r = Inr ok \<longrightarrow>
               (\<forall>v\<in>set (healthReadings t). MIN_HEALTH_FACTOR_E18 \<le> v) \<and>
               borrowsChecked t \<and> t \<noteq> [] \<and> isHealthQuery (last t) \<and> healthReadings t \<noteq> [])"
proof -
  from openPosition_health [OF assms] obtain t where t:
    "calls m' = calls m @ t"
    "\<forall>v\<in>set (healthReadings t). v < MIN_HEALTH_FACTOR_E18 \<longrightarrow>
        r = Inl HealthFactorTooLow"
    "\<forall>ok. r = Inr ok \<longrightarrow> borrowsChecked t \<and> t \<noteq> [] \<and> isHealthQuery (last t) \<and>
        healthReadings t \<noteq> []"
    by blast
  have "\<forall>v\<in>set (healthReadings t). MIN_HEALTH_FACTOR_E18 \<le> v" if "r = Inr ok" for ok
  proof
    fix v assume "v \<in> set (healthReadings t)"
    with t(2) that have "\<not> v < MIN_HEALTH_FACTOR_E18" by auto
    then show "MIN_HEALTH_FACTOR_E18 \<le> v" by simp
  qed
  with t show ?thesis by blast
qed

theorem openPosition_health_factor_enforced_witness:
  "healthReadings (calls sampleOpened) = [1600000000000000000, 2400000000000000000]
   \<and> borrowsChecked (calls sampleOpened)
   \<and> isHealthQuery (last (calls sampleOpened))
   \<and> (\<exists>m'. openPosition samplePool 1 2 10000 2000000000000000000 sampleMachine =
          (Inl HealthFactorTooLow, m') \<and>
        healthReadings (calls m') = [1212121212121212121])"
proof -
  from openPosition_health_factor_enforced [OF sample_open]
  obtain t where t: "calls sampleOpened = calls sampleMachine @ t"
    "\<forall>ok. (Inr True :: error + bool) = Inr ok \<longrightarrow>
       (\<forall>v\<in>set (healthReadings t). MIN_HEALTH_FACTOR_E18 \<le> v) \<and>
       borrowsChecked t \<and> t \<noteq> [] \<and> isHealthQuery (last t) \<and> healthReadings t \<noteq> []"
    by blast
  have "calls sampleMachine = []" by (simp add: sampleMachine_def)
  with t(1) have eq: "t = calls sampleOpened" by simp
  from t(2) have "borrowsChecked t \<and> isHealthQuery (last t)" by blast
  moreover have "healthReadings (calls sampleOpened) = [1600000000000000000, 2400000000000000000]"
    by (simp add: sampleOpened_def healthReadings_Cons)
  ultimately show ?thesis using sample_open_risky eq by simp
qed

subsection \<open>C2: a close that succeeds leaves no debt and no stored position\<close>

text \<open>
  C2. Take any call of \<^verbatim>\<open>closePosition\<close>, in any world, and the log \<open>t\<close> of its external calls.
  The pool answers \<^verbatim>\<open>borrowBalanceOf\<close> at most twice: before the unwind loop, and again after the
  loop and the withdrawal of the leftover collateral. If the second answer is not zero the call
  fails with UnwindIncomplete. When the call succeeds the second answer was zero, that query is
  the last call made to the pool (only token calls follow it), and the stored position is
  cleared: the active user is the zero address, the caller's stored deposit and debt are zero.
\<close>

theorem closePosition_unwind_complete:
  assumes "closePosition ext sender self m = (r, m')"
  shows "\<exists>t. calls m' = calls m @ t \<and>
     (\<forall>d0 d1 rest. borrowBalanceReadings t = d0 # d1 # rest \<longrightarrow> d1 \<noteq> 0 \<longrightarrow>
         r = Inl UnwindIncomplete) \<and>
     (\<forall>ok. r = Inr ok \<longrightarrow>
        (\<exists>d0. borrowBalanceReadings t = [d0, 0]) \<and>
        lastPoolCall t = Some (Stash_borrowBalanceOf (stash (store m)) self, Some (U256Data 0)) \<and>
        activeUser (store m') = 0 \<and> userDeposits (store m') sender = 0 \<and>
        userDebts (store m') sender = 0)"
proof -
  from closePosition_residual [OF assms] obtain t where t:
    "calls m' = calls m @ t"
    "\<forall>d0 d1 rest. borrowBalanceReadings t = d0 # d1 # rest \<longrightarrow> d1 \<noteq> 0 \<longrightarrow>
         r = Inl UnwindIncomplete"
    by blast
  have "(\<exists>d0. borrowBalanceReadings t = [d0, 0]) \<and>
        lastPoolCall t = Some (Stash_borrowBalanceOf (stash (store m)) self, Some (U256Data 0)) \<and>
        activeUser (store m') = 0 \<and> userDeposits (store m') sender = 0 \<and>
        userDebts (store m') sender = 0" if "r = Inr ok" for ok
  proof -
    from assms that have "closePosition ext sender self m = (Inr ok, m')" by simp
    from closePosition_success [OF this] obtain t' d0 where t':
      "calls m' = calls m @ t'" "borrowBalanceReadings t' = [d0, 0]"
      "lastPoolCall t' = Some (Stash_borrowBalanceOf (stash (store m)) self, Some (U256Data 0))"
      "activeUser (store m') = 0"
      "userDeposits (store m') = (userDeposits (store m))(sender := 0)"
      "userDebts (store m') = (userDebts (store m))(sender := 0)"
      by blast
    from t(1) t'(1) have "t' = t" by simp
    with t' show ?thesis by simp
  qed
  with t show ?thesis by blast
qed

theorem closePosition_unwind_complete_witness:
  "(\<exists>m'. closePosition samplePool 1 2 sampleHeld = (Inr True, m') \<and>
      activeUser (store m') = 0 \<and> userDeposits (store m') 1 = 0 \<and> userDebts (store m') 1 = 0)
   \<and> (\<exists>m'. closePosition samplePool 1 2 sampleStuck = (Inl UnwindIncomplete, m'))"
proof -
  from sample_close obtain m1 where run1: "closePosition samplePool 1 2 sampleHeld = (Inr True, m1)"
    by blast
  from closePosition_unwind_complete [OF run1]
  have "activeUser (store m1) = 0 \<and> userDeposits (store m1) 1 = 0 \<and> userDebts (store m1) 1 = 0"
    by blast
  with run1 have a: "\<exists>m'. closePosition samplePool 1 2 sampleHeld = (Inr True, m') \<and>
      activeUser (store m') = 0 \<and> userDeposits (store m') 1 = 0 \<and> userDebts (store m') 1 = 0"
    by blast
  from sample_close_stuck obtain r2 m2
    where run2: "closePosition samplePool 1 2 sampleStuck = (r2, m2)"
      and rd: "borrowBalanceReadings (calls m2) = [64, 2]"
    by blast
  from closePosition_unwind_complete [OF run2] obtain t where
    t: "calls m2 = calls sampleStuck @ t"
    "\<forall>d0 d1 rest. borrowBalanceReadings t = d0 # d1 # rest \<longrightarrow> d1 \<noteq> 0 \<longrightarrow>
         r2 = Inl UnwindIncomplete"
    by blast
  have "calls sampleStuck = []" by (simp add: sampleStuck_def)
  with t(1) rd have "borrowBalanceReadings t = 64 # 2 # []" by simp
  moreover have "(2 :: u256) \<noteq> 0" by simp
  ultimately have "r2 = Inl UnwindIncomplete" using t(2) by blast
  with run2 have b: "\<exists>m'. closePosition samplePool 1 2 sampleStuck = (Inl UnwindIncomplete, m')"
    by blast
  from a b show ?thesis by blast
qed


subsection \<open>C5: the amount an unwind iteration withdraws\<close>

text \<open>
  C5. An iteration of the unwind loop entered with collateral \<open>c > 0\<close> and debt \<open>d > 0\<close> computes
  the amount the spec describes (half of \<open>c\<close>; the excess \<open>c - d\<close> instead if \<open>c > d\<close> and the
  excess is larger; then at least 1 and at most \<open>c\<close>), no step of the computation fails, and the
  first call the iteration makes is the pool's \<^verbatim>\<open>withdraw\<close> of that amount.
\<close>

theorem unwind_withdraw_amount:
  assumes "c \<noteq> 0" and "d \<noteq> 0"
  shows "withdrawAmount c d = Inr (spec_withdrawAmount c d) \<and>
     (\<exists>resp rest. calls (snd (closeLoop ext (Suc n) d c m)) =
        calls m @ (Stash_withdraw (stash (store m)) (moto (store m)) (spec_withdrawAmount c d), resp) # rest)"
proof -
  obtain r m' where run: "closeLoop ext (Suc n) d c m = (r, m')"
    by (cases "closeLoop ext (Suc n) d c m")
  from closeLoop_first_call [OF assms run] run
  show ?thesis by (simp add: withdrawAmount_spec)
qed

theorem unwind_withdraw_amount_witness:
  "withdrawAmount 14925 4975 = Inr 9950 \<and>
   (\<exists>resp rest. calls (snd (closeLoop samplePool (Suc 0) 4975 14925 sampleHeld)) =
        (Stash_withdraw 12 13 9950, resp) # rest)"
proof -
  have h1: "(14925 :: u256) \<noteq> 0" and h2: "(4975 :: u256) \<noteq> 0" by simp_all
  have v: "spec_withdrawAmount 14925 4975 = 9950" by (simp add: spec_withdrawAmount_def)
  have st: "stash (store sampleHeld) = 12" "moto (store sampleHeld) = 13" "calls sampleHeld = []"
    by (simp_all add: sampleHeld_def sampleOpened_def)
  from unwind_withdraw_amount [OF h1 h2, of samplePool 0 sampleHeld]
  show ?thesis by (simp add: v st del: closeLoop.simps)
qed

subsection \<open>C6: what a successful close pays out\<close>

text \<open>
  C6. When \<^verbatim>\<open>closePosition\<close> succeeds, let \<open>netProceeds\<close> be the stored deposit less the stored
  debt if the deposit is larger and 0 otherwise, both read from the storage the call started
  with. The exit fee is \<open>feeRoundUp netProceeds 50\<close>, which equals the spec's
  \<open>(netProceeds * 50 + 10000 - 1) / 10000\<close> and is at most \<open>netProceeds\<close>. The token transfers
  of the call are exactly: the exit fee to the treasury if it is not zero, then
  \<open>netProceeds - exitFee\<close> to the caller if that is not zero. The event emitted carries the
  same two amounts.
\<close>

theorem closePosition_payout:
  assumes "closePosition ext sender self m = (Inr ok, m')"
  shows "\<exists>t exitFee.
     calls m' = calls m @ t \<and>
     feeRoundUp (spec_netProceeds (userDeposits (store m) sender) (userDebts (store m) sender))
       EXIT_FEE_BPS = Inr exitFee \<and>
     unat exitFee
       = spec_ceilFee (spec_netProceeds (userDeposits (store m) sender) (userDebts (store m) sender)) 50 \<and>
     exitFee \<le> spec_netProceeds (userDeposits (store m) sender) (userDebts (store m) sender) \<and>
     transfers t = payouts (moto (store m)) (treasury (store m)) sender exitFee
        (spec_netProceeds (userDeposits (store m) sender) (userDebts (store m) sender) - exitFee) \<and>
     emitted m' = emitted m @
       [PositionClosed sender (userDeposits (store m) sender) (userDebts (store m) sender)
          (spec_netProceeds (userDeposits (store m) sender) (userDebts (store m) sender) - exitFee)
          exitFee]"
proof -
  let ?np = "spec_netProceeds (userDeposits (store m) sender) (userDebts (store m) sender)"
  from closePosition_success [OF assms] obtain t exitFee where f:
    "calls m' = calls m @ t"
    "feeRoundUp ?np EXIT_FEE_BPS = Inr exitFee"
    "exitFee \<le> ?np"
    "transfers t = payouts (moto (store m)) (treasury (store m)) sender exitFee (?np - exitFee)"
    "emitted m' = emitted m @
       [PositionClosed sender (userDeposits (store m) sender) (userDebts (store m) sender)
          (?np - exitFee) exitFee]"
    by blast
  from f(2) have "feeRoundUp ?np 50 = Inr exitFee" by (simp add: EXIT_FEE_BPS_def)
  then have "unat exitFee = spec_ceilFee ?np 50" by (rule feeRoundUp_50_value)
  with f show ?thesis by blast
qed

theorem closePosition_payout_witness:
  "\<exists>m'. closePosition samplePool 1 2 sampleHeld = (Inr True, m') \<and>
      transfers (calls m') = [(13, 11, 50), (13, 1, 9900)]"
proof -
  from sample_close obtain m1 where run1: "closePosition samplePool 1 2 sampleHeld = (Inr True, m1)"
    by blast
  have st: "userDeposits (store sampleHeld) 1 = 14925" "userDebts (store sampleHeld) 1 = 4975"
    "moto (store sampleHeld) = 13" "treasury (store sampleHeld) = 11" "calls sampleHeld = []"
    by (simp_all add: sampleHeld_def sampleOpened_def)
  have np: "spec_netProceeds 14925 4975 = 9950" by (simp add: spec_netProceeds_def)
  have fee: "feeRoundUp 9950 EXIT_FEE_BPS = Inr 50"
    by (simp add: feeRoundUp_def safe_mul_def safe_sub_def safe_add_def safe_div_def
        orElse_def FEE_BASIS_def EXIT_FEE_BPS_def)
  from closePosition_payout [OF run1] obtain t exitFee where f:
    "calls m1 = calls sampleHeld @ t"
    "feeRoundUp (spec_netProceeds (userDeposits (store sampleHeld) 1) (userDebts (store sampleHeld) 1))
       EXIT_FEE_BPS = Inr exitFee"
    "transfers t = payouts (moto (store sampleHeld)) (treasury (store sampleHeld)) 1 exitFee
        (spec_netProceeds (userDeposits (store sampleHeld) 1) (userDebts (store sampleHeld) 1) - exitFee)"
    by blast
  from f(2) fee have e: "exitFee = 50" by (simp add: st np)
  from f(1) have "calls m1 = t" by (simp add: st)
  moreover from f(3) have "transfers t = [(13, 11, 50), (13, 1, 9900)]"
    by (simp add: st np e payouts_def)
  ultimately show ?thesis using run1 by blast
qed

subsection \<open>C7: the loops are bounded\<close>

text \<open>
  C7. For any input and any world, \<^verbatim>\<open>openPosition\<close> calls the pool's \<^verbatim>\<open>deposit\<close> at most
  \<^verbatim>\<open>MAX_LOOPS\<close> times and its \<^verbatim>\<open>borrow\<close> at most \<^verbatim>\<open>MAX_LOOPS\<close> times, and \<^verbatim>\<open>closePosition\<close>
  calls \<^verbatim>\<open>repay\<close> at most \<^verbatim>\<open>MAX_LOOPS\<close> times, each after a \<^verbatim>\<open>withdraw\<close>: at most five
  withdraw/repay round trips. The withdrawals are at most one more than the repayments (the
  withdrawal of the leftover collateral, or a withdrawal that fails). Calls that fail count.
\<close>

theorem loops_bounded:
  "(\<exists>t. calls (snd (openPosition ext sender self amount targetLeverageE18 m)) = calls m @ t \<and>
       length (filter isDeposit t) \<le> MAX_LOOPS \<and> length (filter isBorrow t) \<le> MAX_LOOPS)
   \<and> (\<exists>t. calls (snd (closePosition ext sender self m)) = calls m @ t \<and>
       length (filter isRepay t) \<le> MAX_LOOPS \<and>
       length (filter isWithdraw t) \<le> length (filter isRepay t) + 1)
   \<and> MAX_LOOPS = 5"
proof (intro conjI)
  obtain r m' where "openPosition ext sender self amount targetLeverageE18 m = (r, m')"
    by (cases "openPosition ext sender self amount targetLeverageE18 m")
  from openPosition_counts [OF this] this
  show "\<exists>t. calls (snd (openPosition ext sender self amount targetLeverageE18 m)) = calls m @ t \<and>
       length (filter isDeposit t) \<le> MAX_LOOPS \<and> length (filter isBorrow t) \<le> MAX_LOOPS"
    by simp
next
  obtain r m' where "closePosition ext sender self m = (r, m')"
    by (cases "closePosition ext sender self m")
  from closePosition_counts [OF this] this
  show "\<exists>t. calls (snd (closePosition ext sender self m)) = calls m @ t \<and>
       length (filter isRepay t) \<le> MAX_LOOPS \<and>
       length (filter isWithdraw t) \<le> length (filter isRepay t) + 1"
    by simp
next
  show "MAX_LOOPS = 5" by (rule MAX_LOOPS_def)
qed

subsection \<open>C4: one position at a time\<close>

text \<open>
  C4. While a position is active (the stored active user is not the zero address) a further
  \<^verbatim>\<open>openPosition\<close> always fails, whoever calls it, without making any external call and
  without changing the state. A call that passes the checks listed before the position check
  (not paused, lock free, amount at least \<^verbatim>\<open>MIN_DEPOSIT\<close>, leverage in range) fails with
  PositionAlreadyActive. A call that one of those checks stops fails with the error of the
  first of them that it does not pass, in the order of the list: Paused, Reentrant,
  BelowMinimumDeposit, then the leverage above the maximum, then the leverage below the
  minimum. Consequently at most one stored position is non-empty at any time:
  \<open>singlePosition\<close> is kept by every \<^verbatim>\<open>openPosition\<close> of a caller other than the zero address
  and by every \<^verbatim>\<open>closePosition\<close>, whether they succeed or revert, and under it two users with
  a position are the same user.
\<close>

theorem single_position:
  "(activeUser (store m) \<noteq> 0 \<longrightarrow>
      (\<not> paused (store m) \<and> \<not> locked (store m) \<and> \<not> amount < MIN_DEPOSIT \<and>
       \<not> MAX_LEVERAGE_E18 < lev \<and> \<not> lev < E18 \<longrightarrow>
         fst (openPosition ext sender self amount lev m) = Inl PositionAlreadyActive) \<and>
      (paused (store m) \<longrightarrow> fst (openPosition ext sender self amount lev m) = Inl Paused) \<and>
      (\<not> paused (store m) \<and> locked (store m) \<longrightarrow>
         fst (openPosition ext sender self amount lev m) = Inl Reentrant) \<and>
      (\<not> paused (store m) \<and> \<not> locked (store m) \<and> amount < MIN_DEPOSIT \<longrightarrow>
         fst (openPosition ext sender self amount lev m) = Inl BelowMinimumDeposit) \<and>
      (\<not> paused (store m) \<and> \<not> locked (store m) \<and> \<not> amount < MIN_DEPOSIT \<and>
       MAX_LEVERAGE_E18 < lev \<longrightarrow>
         fst (openPosition ext sender self amount lev m) = Inl LeverageAboveMaximum) \<and>
      (\<not> paused (store m) \<and> \<not> locked (store m) \<and> \<not> amount < MIN_DEPOSIT \<and>
       \<not> MAX_LEVERAGE_E18 < lev \<and> lev < E18 \<longrightarrow>
         fst (openPosition ext sender self amount lev m) = Inl LeverageBelowMinimum) \<and>
      (\<exists>e. fst (openPosition ext sender self amount lev m) = Inl e) \<and>
      calls (snd (openPosition ext sender self amount lev m)) = calls m \<and>
      snd (transact (openPosition ext sender self amount lev) m) = m)
   \<and> (singlePosition (store m) \<and> sender \<noteq> 0 \<longrightarrow>
         singlePosition (store (snd (transact (openPosition ext sender self amount lev) m))))
   \<and> (singlePosition (store m) \<longrightarrow>
         singlePosition (store (snd (transact (closePosition ext sender self) m))))
   \<and> (singlePosition (store m) \<longrightarrow>
         (\<forall>u v. hasPosition (store m) u \<longrightarrow> hasPosition (store m) v \<longrightarrow> u = v))"
proof (intro conjI impI)
  assume active: "activeUser (store m) \<noteq> 0"
  obtain r m' where run: "openPosition ext sender self amount lev m = (r, m')"
    by (cases "openPosition ext sender self amount lev m")
  let ?lockedM = "m\<lparr>store := (store m)\<lparr>locked := True\<rparr>\<rparr>"
  note rej = openPosition_rejections [OF run]
  from openPosition_active [OF run active]
  have shape: "(\<exists>e. r = Inl e) \<and> (m' = m \<or> m' = ?lockedM)"
    by blast
  have r: "fst (openPosition ext sender self amount lev m) = r"
    using run by simp
  {
    assume "\<not> paused (store m) \<and> \<not> locked (store m) \<and> \<not> amount < MIN_DEPOSIT \<and>
       \<not> MAX_LEVERAGE_E18 < lev \<and> \<not> lev < E18"
    with rej active have "r = Inl PositionAlreadyActive" by blast
    with r show "fst (openPosition ext sender self amount lev m) = Inl PositionAlreadyActive"
      by simp
  }
  {
    assume "paused (store m)"
    with rej have "r = Inl Paused" by blast
    with r show "fst (openPosition ext sender self amount lev m) = Inl Paused" by simp
  }
  {
    assume "\<not> paused (store m) \<and> locked (store m)"
    with rej have "r = Inl Reentrant" by blast
    with r show "fst (openPosition ext sender self amount lev m) = Inl Reentrant" by simp
  }
  {
    assume "\<not> paused (store m) \<and> \<not> locked (store m) \<and> amount < MIN_DEPOSIT"
    with rej have "r = Inl BelowMinimumDeposit" by blast
    with r show "fst (openPosition ext sender self amount lev m) = Inl BelowMinimumDeposit"
      by simp
  }
  {
    assume "\<not> paused (store m) \<and> \<not> locked (store m) \<and> \<not> amount < MIN_DEPOSIT \<and>
       MAX_LEVERAGE_E18 < lev"
    with rej have "r = Inl LeverageAboveMaximum" by blast
    with r show "fst (openPosition ext sender self amount lev m) = Inl LeverageAboveMaximum"
      by simp
  }
  {
    assume "\<not> paused (store m) \<and> \<not> locked (store m) \<and> \<not> amount < MIN_DEPOSIT \<and>
       \<not> MAX_LEVERAGE_E18 < lev \<and> lev < E18"
    with rej have "r = Inl LeverageBelowMinimum" by blast
    with r show "fst (openPosition ext sender self amount lev m) = Inl LeverageBelowMinimum"
      by simp
  }
  from shape r show "\<exists>e. fst (openPosition ext sender self amount lev m) = Inl e"
    by simp
  from shape run show "calls (snd (openPosition ext sender self amount lev m)) = calls m"
    by auto
  from shape run show "snd (transact (openPosition ext sender self amount lev) m) = m"
    by (auto simp: transact_def)
next
  assume "singlePosition (store m) \<and> sender \<noteq> 0"
  then show "singlePosition (store (snd (transact (openPosition ext sender self amount lev) m)))"
    by (simp add: singlePosition_transact_open)
next
  assume "singlePosition (store m)"
  then show "singlePosition (store (snd (transact (closePosition ext sender self) m)))"
    by (rule singlePosition_transact_close)
next
  assume "singlePosition (store m)"
  then show "\<forall>u v. hasPosition (store m) u \<longrightarrow> hasPosition (store m) v \<longrightarrow> u = v"
    by (auto simp: singlePosition_def)
qed

theorem single_position_witness:
  "fst (openPosition samplePool 5 2 10000 1000000000000000000 sampleOpened) = Inl PositionAlreadyActive
   \<and> fst (openPosition samplePool 5 2 0 1000000000000000000 sampleOpened) = Inl BelowMinimumDeposit
   \<and> fst (openPosition samplePool 5 2 10000 1000000000000000000
        (sampleOpened\<lparr>store := (store sampleOpened)\<lparr>paused := True\<rparr>\<rparr>)) = Inl Paused
   \<and> fst (openPosition samplePool 5 2 10000 1000000000000000000
        (sampleOpened\<lparr>store := (store sampleOpened)\<lparr>locked := True\<rparr>\<rparr>)) = Inl Reentrant
   \<and> snd (transact (openPosition samplePool 5 2 10000 1000000000000000000) sampleOpened) = sampleOpened
   \<and> singlePosition
        (store (snd (transact (openPosition samplePool 1 2 10000 1500000000000000000) sampleMachine)))"
proof -
  note t = single_position [where m = sampleOpened and ext = samplePool and sender = 5 and self = 2
      and amount = 10000 and lev = 1000000000000000000]
  note t0 = single_position [where m = sampleOpened and ext = samplePool and sender = 5 and self = 2
      and amount = 0 and lev = 1000000000000000000]
  have a: "activeUser (store sampleOpened) \<noteq> 0" by (simp add: sampleOpened_def)
  have c: "\<not> paused (store sampleOpened) \<and> \<not> locked (store sampleOpened) \<and>
     \<not> (10000 :: u256) < MIN_DEPOSIT \<and> \<not> MAX_LEVERAGE_E18 < (1000000000000000000 :: u256) \<and>
     \<not> (1000000000000000000 :: u256) < E18"
    by (simp add: sampleOpened_def MIN_DEPOSIT_def MAX_LEVERAGE_E18_def E18_def)
  have c0: "\<not> paused (store sampleOpened) \<and> \<not> locked (store sampleOpened) \<and>
     (0 :: u256) < MIN_DEPOSIT"
    by (simp add: sampleOpened_def MIN_DEPOSIT_def)
  from t [THEN conjunct1, rule_format, OF a] c
  have first: "fst (openPosition samplePool 5 2 10000 1000000000000000000 sampleOpened)
      = Inl PositionAlreadyActive"
    and undone: "snd (transact (openPosition samplePool 5 2 10000 1000000000000000000) sampleOpened)
      = sampleOpened"
    by blast+
  from t0 [THEN conjunct1, rule_format, OF a] c0
  have low: "fst (openPosition samplePool 5 2 0 1000000000000000000 sampleOpened)
      = Inl BelowMinimumDeposit"
    by blast
  have ap: "activeUser (store (sampleOpened\<lparr>store := (store sampleOpened)\<lparr>paused := True\<rparr>\<rparr>)) \<noteq> 0"
    "paused (store (sampleOpened\<lparr>store := (store sampleOpened)\<lparr>paused := True\<rparr>\<rparr>))"
    by (simp_all add: sampleOpened_def)
  from single_position [where m = "sampleOpened\<lparr>store := (store sampleOpened)\<lparr>paused := True\<rparr>\<rparr>"
      and ext = samplePool and sender = 5 and self = 2 and amount = 10000
      and lev = 1000000000000000000, THEN conjunct1, rule_format, OF ap(1)] ap(2)
  have halted: "fst (openPosition samplePool 5 2 10000 1000000000000000000
      (sampleOpened\<lparr>store := (store sampleOpened)\<lparr>paused := True\<rparr>\<rparr>)) = Inl Paused"
    by blast
  have al: "activeUser (store (sampleOpened\<lparr>store := (store sampleOpened)\<lparr>locked := True\<rparr>\<rparr>)) \<noteq> 0"
    "\<not> paused (store (sampleOpened\<lparr>store := (store sampleOpened)\<lparr>locked := True\<rparr>\<rparr>)) \<and>
     locked (store (sampleOpened\<lparr>store := (store sampleOpened)\<lparr>locked := True\<rparr>\<rparr>))"
    by (simp_all add: sampleOpened_def)
  from single_position [where m = "sampleOpened\<lparr>store := (store sampleOpened)\<lparr>locked := True\<rparr>\<rparr>"
      and ext = samplePool and sender = 5 and self = 2 and amount = 10000
      and lev = 1000000000000000000, THEN conjunct1, rule_format, OF al(1)] al(2)
  have held: "fst (openPosition samplePool 5 2 10000 1000000000000000000
      (sampleOpened\<lparr>store := (store sampleOpened)\<lparr>locked := True\<rparr>\<rparr>)) = Inl Reentrant"
    by blast
  have inv: "singlePosition (store sampleMachine) \<and> (1 :: address) \<noteq> 0"
    by (simp add: singlePosition_def hasPosition_def sampleMachine_def sampleStore_def)
  from single_position [where m = sampleMachine and ext = samplePool and sender = 1 and self = 2
      and amount = 10000 and lev = 1500000000000000000,
      THEN conjunct2, THEN conjunct1, rule_format, OF inv] first undone low halted held
  show ?thesis by blast
qed

subsection \<open>C8: the pause blocks opening, never closing\<close>

text \<open>
  C8. \<^verbatim>\<open>closePosition\<close> never reads the paused flag: run with the flag set to any value it
  returns the same result and leaves the same machine, but for the flag. So a close that
  succeeds while unpaused succeeds while paused. Every \<^verbatim>\<open>openPosition\<close> attempted while the
  flag is set fails with Paused and changes nothing.
\<close>

theorem pause_exemption:
  "closePosition ext sender self (withPaused p m)
     = (case closePosition ext sender self m of (r, m') \<Rightarrow> (r, withPaused p m'))
   \<and> (fst (closePosition ext sender self (withPaused False m)) = Inr ok \<longrightarrow>
        fst (closePosition ext sender self (withPaused True m)) = Inr ok)
   \<and> (paused (store m) \<longrightarrow>
        openPosition ext sender self amount lev m = (Inl Paused, m))"
proof (intro conjI impI)
  from ignoresPaused_closePosition [of ext sender self]
  show eq: "closePosition ext sender self (withPaused p m)
     = (case closePosition ext sender self m of (r, m') \<Rightarrow> (r, withPaused p m'))" for p
    by (simp add: ignoresPaused_def)
  have "fst (closePosition ext sender self (withPaused q m)) = fst (closePosition ext sender self m)"
    for q
    by (simp add: eq split: prod.splits)
  then show "fst (closePosition ext sender self (withPaused True m)) = Inr ok"
    if "fst (closePosition ext sender self (withPaused False m)) = Inr ok"
    using that by simp
next
  assume p: "paused (store m)"
  obtain r m' where run: "openPosition ext sender self amount lev m = (r, m')"
    by (cases "openPosition ext sender self amount lev m")
  from openPosition_rejections [OF run] p have "r = Inl Paused \<and> m' = m" by blast
  with run show "openPosition ext sender self amount lev m = (Inl Paused, m)" by simp
qed

theorem pause_exemption_witness:
  "fst (closePosition samplePool 1 2 (withPaused True sampleHeld)) = Inr True
   \<and> openPosition samplePool 1 2 10000 1000000000000000000 (withPaused True sampleMachine)
       = (Inl Paused, withPaused True sampleMachine)"
proof -
  have same: "withPaused False sampleHeld = sampleHeld"
    by (simp add: withPaused_def sampleHeld_def sampleOpened_def)
  from sample_close have h1: "fst (closePosition samplePool 1 2 (withPaused False sampleHeld)) = Inr True"
    by (auto simp: same)
  have h2: "paused (store (withPaused True sampleMachine))"
    by (simp add: withPaused_def)
  from pause_exemption [where ext = samplePool and sender = 1 and self = 2 and m = sampleHeld
      and ok = True,
      THEN conjunct2, THEN conjunct1, rule_format, OF h1]
    pause_exemption [where ext = samplePool and sender = 1 and self = 2
      and m = "withPaused True sampleMachine" and amount = 10000
      and lev = 1000000000000000000, THEN conjunct2, THEN conjunct2, rule_format, OF h2]
  show ?thesis by blast
qed

subsection \<open>C9: the validation of the inputs\<close>

text \<open>
  C9. \<^verbatim>\<open>openPosition\<close> rejects every amount below \<^verbatim>\<open>MIN_DEPOSIT\<close> (10 000) with
  BelowMinimumDeposit, and every leverage above 3.0e18 or below 1.0e18, sent with an amount of
  at least \<^verbatim>\<open>MIN_DEPOSIT\<close>, with LeverageOutOfRange. The checks run in the order of the
  spec's list: the pause and the reentrancy lock come first and are taken to pass here, the
  lock is acquired, then the amount is checked and then the leverage. At the rejection no
  external call has been made and nothing has been written but that lock; the revert rolls
  it back, so the transaction leaves the machine exactly as it was.
\<close>

theorem openPosition_validation:
  assumes "\<not> paused (store m)" and "\<not> locked (store m)"
  shows "(amount < MIN_DEPOSIT \<longrightarrow>
            openPosition ext sender self amount lev m
              = (Inl BelowMinimumDeposit, m\<lparr>store := (store m)\<lparr>locked := True\<rparr>\<rparr>) \<and>
            transact (openPosition ext sender self amount lev) m = (Inl BelowMinimumDeposit, m))
       \<and> (\<not> amount < MIN_DEPOSIT \<longrightarrow> (MAX_LEVERAGE_E18 < lev \<or> lev < E18) \<longrightarrow>
            (\<exists>e. LeverageOutOfRange e \<and>
                 openPosition ext sender self amount lev m
                   = (Inl e, m\<lparr>store := (store m)\<lparr>locked := True\<rparr>\<rparr>) \<and>
                 transact (openPosition ext sender self amount lev) m = (Inl e, m)))"
proof -
  let ?lockedM = "m\<lparr>store := (store m)\<lparr>locked := True\<rparr>\<rparr>"
  obtain r m' where run: "openPosition ext sender self amount lev m = (r, m')"
    by (cases "openPosition ext sender self amount lev m")
  note rej = openPosition_rejections [OF run, THEN conjunct2, THEN conjunct2, rule_format,
      OF assms]
  have roll: "transact (openPosition ext sender self amount lev) m = (Inl e, m)"
    if "r = Inl e" "m' = ?lockedM" for e
    using run that by (simp add: transact_def)
  have a: "r = Inl BelowMinimumDeposit \<and> m' = ?lockedM" if "amount < MIN_DEPOSIT"
    using rej that by blast
  have b: "\<exists>e. LeverageOutOfRange e \<and> r = Inl e \<and> m' = ?lockedM"
    if "\<not> amount < MIN_DEPOSIT" "MAX_LEVERAGE_E18 < lev \<or> lev < E18"
  proof (cases "MAX_LEVERAGE_E18 < lev")
    case True
    with rej that(1) have "r = Inl LeverageAboveMaximum \<and> m' = ?lockedM" by blast
    then show ?thesis by (auto simp: LeverageOutOfRange_def)
  next
    case False
    with that(2) have "lev < E18" by blast
    with rej that(1) False have "r = Inl LeverageBelowMinimum \<and> m' = ?lockedM" by blast
    then show ?thesis by (auto simp: LeverageOutOfRange_def)
  qed
  from a b roll run show ?thesis by (metis (no_types, lifting))
qed

theorem openPosition_validation_witness:
  "fst (openPosition samplePool 1 2 9999 1000000000000000000 sampleMachine) = Inl BelowMinimumDeposit
   \<and> (\<exists>e. LeverageOutOfRange e \<and>
         fst (openPosition samplePool 1 2 10000 4000000000000000000 sampleMachine) = Inl e)"
proof -
  have h: "\<not> paused (store sampleMachine)" "\<not> locked (store sampleMachine)"
    by (simp_all add: sampleMachine_def sampleStore_def)
  have c1: "(9999 :: u256) < MIN_DEPOSIT" by (simp add: MIN_DEPOSIT_def)
  have c2: "\<not> (10000 :: u256) < MIN_DEPOSIT" by (simp add: MIN_DEPOSIT_def)
  have c3: "MAX_LEVERAGE_E18 < (4000000000000000000 :: u256) \<or> (4000000000000000000 :: u256) < E18"
    by (simp add: MAX_LEVERAGE_E18_def)
  from openPosition_validation [OF h, where amount = 9999 and ext = samplePool and sender = 1
      and self = 2 and lev = 1000000000000000000,
      THEN conjunct1, rule_format, OF c1]
  have a: "fst (openPosition samplePool 1 2 9999 1000000000000000000 sampleMachine)
      = Inl BelowMinimumDeposit"
    by simp
  from openPosition_validation [OF h, where amount = 10000 and ext = samplePool and sender = 1
      and self = 2 and lev = 4000000000000000000,
      THEN conjunct2, rule_format, OF c2 c3]
  have b: "\<exists>e. LeverageOutOfRange e \<and>
         fst (openPosition samplePool 1 2 10000 4000000000000000000 sampleMachine) = Inl e"
    by auto
  from a b show ?thesis by blast
qed

subsection \<open>C10: the leverage cap\<close>

text \<open>
  C10. For every behaviour of the pool and the token, at every moment of a run of
  \<^verbatim>\<open>openPosition\<close> the total supplied to the pool so far (the running
  \<^verbatim>\<open>totalDeposited\<close>: the sum of the deposits in any prefix of the calls of the run) is
  at most \<^verbatim>\<open>targetTotalDeposit\<close>, the floor of (amount - entryFee) * targetLeverage / 1e18.
  When the run succeeds, the deposit recorded in the stored position is the total supplied, and
  so is at most that target.
\<close>

theorem leverage_cap:
  "\<exists>t. calls (snd (openPosition ext sender self amount lev m)) = calls m @ t \<and>
       (\<forall>k. totalSupplied (take k t) \<le> spec_targetTotalDeposit amount lev) \<and>
       (\<forall>ok. fst (openPosition ext sender self amount lev m) = Inr ok \<longrightarrow>
          unat (userDeposits (store (snd (openPosition ext sender self amount lev m))) sender)
            = totalSupplied t \<and>
          unat (userDeposits (store (snd (openPosition ext sender self amount lev m))) sender)
            \<le> spec_targetTotalDeposit amount lev)"
proof -
  obtain r m' where run: "openPosition ext sender self amount lev m = (r, m')"
    by (cases "openPosition ext sender self amount lev m")
  from openPosition_supply [OF run] obtain t where t:
    "calls m' = calls m @ t" "totalSupplied t \<le> spec_targetTotalDeposit amount lev"
    "\<forall>ok. r = Inr ok \<longrightarrow> unat (userDeposits (store m') sender) = totalSupplied t"
    by blast
  have "totalSupplied (take k t) \<le> spec_targetTotalDeposit amount lev" for k
    using totalSupplied_take [of k t] t(2) by simp
  with t run show ?thesis by auto
qed

theorem leverage_cap_witness:
  "spec_targetTotalDeposit 10000 1500000000000000000 = 14925
   \<and> unat (userDeposits (store sampleOpened) 1) = 14925
   \<and> unat (userDeposits (store sampleOpened) 1) \<le> spec_targetTotalDeposit 10000 1500000000000000000"
proof -
  have run: "fst (openPosition samplePool 1 2 10000 1500000000000000000 sampleMachine) = Inr True"
    "snd (openPosition samplePool 1 2 10000 1500000000000000000 sampleMachine) = sampleOpened"
    by (simp_all add: sample_open)
  from leverage_cap [where ext = samplePool and sender = 1 and self = 2 and amount = 10000
      and lev = 1500000000000000000 and m = sampleMachine]
  obtain t where
    "\<forall>ok. fst (openPosition samplePool 1 2 10000 1500000000000000000 sampleMachine) = Inr ok \<longrightarrow>
       unat (userDeposits (store (snd (openPosition samplePool 1 2 10000 1500000000000000000
          sampleMachine))) 1) = totalSupplied t \<and>
       unat (userDeposits (store (snd (openPosition samplePool 1 2 10000 1500000000000000000
          sampleMachine))) 1) \<le> spec_targetTotalDeposit 10000 1500000000000000000"
    by blast
  then have "fst (openPosition samplePool 1 2 10000 1500000000000000000 sampleMachine) = Inr True \<longrightarrow>
       unat (userDeposits (store (snd (openPosition samplePool 1 2 10000 1500000000000000000
          sampleMachine))) 1) \<le> spec_targetTotalDeposit 10000 1500000000000000000"
    by blast
  with run have "unat (userDeposits (store sampleOpened) 1)
      \<le> spec_targetTotalDeposit 10000 1500000000000000000"
    by simp
  moreover have "spec_targetTotalDeposit 10000 1500000000000000000 = 14925"
    by (simp add: spec_targetTotalDeposit_def spec_ceilFee_def)
  moreover have "unat (userDeposits (store sampleOpened) 1) = 14925"
    by (simp add: sampleOpened_def)
  ultimately show ?thesis by blast
qed

end
